theory Spec2Isabelle
  imports Main "HOL-Library.Sublist"
begin

section \<open>Data model\<close>

text \<open>
  A Python \<open>str\<close> is a sequence of Unicode code points and \<open>len\<close> counts code
  points, so a string is a list of code points here. \<open>asc\<close> turns an ASCII literal
  into such a list.
\<close>

type_synonym pystr = "nat list"

definition asc :: "string \<Rightarrow> pystr" where
  "asc s = map of_char s"

text \<open>The exceptions that the modelled code raises, catches or lets through.\<close>

datatype exn =
    FileNotFoundError
  | OSError
  | NameError
  | AttributeError
  | KeyError
  | ValueError
  | JSONDecodeError
  | FeedError

datatype level = INFO | WARNING | ERROR

text \<open>
  The history store (\<open>sent_items\<close>): a dict from feed URL to the list of the
  identifiers already sent for that feed.
\<close>

type_synonym store = "pystr \<rightharpoonup> pystr list"

definition hist_of :: "store \<Rightarrow> pystr \<Rightarrow> pystr list" where
  "hist_of s u = (case s u of None \<Rightarrow> [] | Some h \<Rightarrow> h)"

text \<open>
  A file is absent, cannot be opened (\<open>open\<close> raises an \<open>OSError\<close> other than
  \<open>FileNotFoundError\<close>: permission denied, a directory in its place), or has content.
  The content of the history file is what \<open>json.load\<close> makes of it: a decoding error or
  the stored dict.
\<close>

datatype 'a fstate = Absent | Inaccessible | Content 'a

datatype json_doc = Malformed | Json store

text \<open>
  A parsed feed entry, as \<open>feedparser\<close> hands it over: every attribute may be missing
  (\<open>hasattr\<close> is \<open>False\<close>), and so may every key of an attachment.
\<close>

record media =
  m_type :: "pystr option"
  m_medium :: "pystr option"
  m_url :: "pystr option"

record enclosure =
  enc_type :: "pystr option"
  enc_href :: "pystr option"

record thumbnail =
  th_url :: "pystr option"

record content_block =
  c_value :: "pystr option"

record raw_entry =
  e_id :: "pystr option"
  e_title :: "pystr option"
  e_link :: "pystr option"
  e_description :: "pystr option"
  e_summary :: "pystr option"
  e_media_content :: "media list option"
  e_enclosures :: "enclosure list option"
  e_media_thumbnail :: "thumbnail list option"
  e_content :: "content_block list option"

record feed =
  f_title :: "pystr option"
  f_entries :: "raw_entry list"

text \<open>
  \<open>config.py\<close>. The three \<open>TELEGRAM_\<close> values come from the environment. The topic
  id is used as \<open>if topic_id: ... int(topic_id)\<close>: it is unset or empty, or \<open>int\<close>
  raises \<open>ValueError\<close> on it, or it denotes an integer.
\<close>

datatype env_int = EnvUnset | EnvInvalid | EnvInt int

record config =
  TELEGRAM_CHAT_ID :: "pystr option"
  TELEGRAM_TOPIC_ID :: env_int
  CHECK_INTERVAL :: nat
  MAX_HISTORY_ITEMS :: nat
  INCLUDE_DESCRIPTION :: bool
  DISABLE_NOTIFICATION :: bool
  MAX_MESSAGE_LENGTH :: nat

definition default_config :: "pystr option \<Rightarrow> env_int \<Rightarrow> config" where
  "default_config chat topic =
     \<lparr>TELEGRAM_CHAT_ID = chat, TELEGRAM_TOPIC_ID = topic, CHECK_INTERVAL = 3600,
      MAX_HISTORY_ITEMS = 200, INCLUDE_DESCRIPTION = False, DISABLE_NOTIFICATION = False,
      MAX_MESSAGE_LENGTH = 4096\<rparr>"

text \<open>
  \<open>html.unescape\<close>, whose entity table is not part of the repository, is a parameter.
\<close>

record lib =
  html_unescape :: "pystr \<Rightarrow> pystr"

text \<open>The keyword arguments shared by both transport calls, and the calls themselves.\<close>

record kwargs =
  chat_id :: "pystr option"
  disable_notification :: bool
  message_thread_id :: "int option"

datatype call =
    SendPhoto pystr pystr kwargs
  | SendMessage pystr kwargs

text \<open>
  The world outside the program. The feed parser and the bot are oracles indexed by a
  clock that advances at every call, so that any sequence of outcomes can occur.
  \<open>outbox\<close> lists the transport calls made with their outcome, \<open>logged\<close> the log
  records. \<open>journal\<close> is an observation log and no program state: it records every
  call of \<open>send_single_article\<close> made by \<open>check_feeds\<close> with the feed, the entry and
  the value returned; no function reads it.
\<close>

record world =
  feeds_file :: "pystr fstate"
  history_file :: "json_doc fstate"
  clock :: nat
  feedparser_parse :: "nat \<Rightarrow> pystr \<Rightarrow> exn + feed"
  bot_accepts :: "nat \<Rightarrow> call \<Rightarrow> bool"
  outbox :: "(call \<times> bool) list"
  logged :: "(level \<times> string) list"
  journal :: "(pystr \<times> raw_entry \<times> (exn + bool)) list"

definition logger :: "level \<Rightarrow> string \<Rightarrow> world \<Rightarrow> world" where
  "logger l msg w = w\<lparr>logged := logged w @ [(l, msg)]\<rparr>"

section \<open>String helpers\<close>

text \<open>The code points for which \<open>str.isspace\<close> holds; \<open>strip\<close> and \<open>split\<close> use them.\<close>

definition isspace :: "nat \<Rightarrow> bool" where
  "isspace c \<longleftrightarrow>
     (9 \<le> c \<and> c \<le> 13) \<or> (28 \<le> c \<and> c \<le> 32) \<or> c = 133 \<or> c = 160 \<or> c = 5760 \<or>
     (8192 \<le> c \<and> c \<le> 8202) \<or> c = 8232 \<or> c = 8233 \<or> c = 8239 \<or> c = 8287 \<or> c = 12288"

definition strip :: "pystr \<Rightarrow> pystr" where
  "strip s = rev (dropWhile isspace (rev (dropWhile isspace s)))"

definition startswith :: "pystr \<Rightarrow> pystr \<Rightarrow> bool" where
  "startswith s p \<longleftrightarrow> take (length p) s = p"

text \<open>\<open>text.split()\<close>: the maximal runs of non-whitespace.\<close>

fun split_acc :: "pystr \<Rightarrow> pystr \<Rightarrow> pystr list" where
  "split_acc cur [] = (if cur = [] then [] else [cur])"
| "split_acc cur (c # cs) =
     (if isspace c then (if cur = [] then split_acc [] cs else cur # split_acc [] cs)
      else split_acc (cur @ [c]) cs)"

definition split :: "pystr \<Rightarrow> pystr list" where
  "split s = split_acc [] s"

fun join :: "pystr \<Rightarrow> pystr list \<Rightarrow> pystr" where
  "join sep [] = []"
| "join sep [x] = x"
| "join sep (x # y # ys) = x @ sep @ join sep (y # ys)"

text \<open>\<open>f.readlines()\<close>: the lines of a text, each with its newline.\<close>

fun readlines_acc :: "pystr \<Rightarrow> pystr \<Rightarrow> pystr list" where
  "readlines_acc cur [] = (if cur = [] then [] else [cur])"
| "readlines_acc cur (c # cs) =
     (if c = 10 then (cur @ [c]) # readlines_acc [] cs else readlines_acc (cur @ [c]) cs)"

definition readlines :: "pystr \<Rightarrow> pystr list" where
  "readlines s = readlines_acc [] s"

section \<open>strip_html\<close>

text \<open>
  \<^verbatim>\<open>re.sub(r'<[^>]+>', '', html_content)\<close>: scanning from the left, a \<open><\<close> followed
  by at least one character other than \<open>>\<close> and then a \<open>>\<close> is removed with all
  between; any other character stays.
\<close>

function remove_tags :: "pystr \<Rightarrow> pystr" where
  "remove_tags [] = []"
| "remove_tags (c # cs) =
     (if c = 60 \<and> takeWhile (\<lambda>x. x \<noteq> 62) cs \<noteq> [] \<and> dropWhile (\<lambda>x. x \<noteq> 62) cs \<noteq> []
      then remove_tags (tl (dropWhile (\<lambda>x. x \<noteq> 62) cs))
      else c # remove_tags cs)"
  by pat_completeness auto
termination
proof (relation "measure length")
  show "wf (measure length)" by simp
next
  fix c :: nat and cs :: "nat list"
  have "length (tl (dropWhile (\<lambda>x. x \<noteq> 62) cs)) \<le> length cs"
    using length_dropWhile_le [of "\<lambda>x. x \<noteq> 62" cs] by simp
  then show "(tl (dropWhile (\<lambda>x. x \<noteq> 62) cs), c # cs) \<in> measure length" by simp
next
  fix c :: nat and cs :: "nat list"
  show "(cs, c # cs) \<in> measure length" by simp
qed

definition strip_html :: "lib \<Rightarrow> pystr \<Rightarrow> pystr" where
  "strip_html l html_content =
     (let text = remove_tags html_content;
          text = html_unescape l text
      in join [32] (split text))"

section \<open>Feed list and history files\<close>

text \<open>
  The names bound at module level in \<open>rss_telegram.py\<close> by its import statements
  (lines 2 to 11). Reading a name that is not bound raises \<open>NameError\<close>.
\<close>

definition module_imports :: "string list" where
  "module_imports =
     [''time'', ''json'', ''logging'', ''feedparser'', ''asyncio'', ''Bot'', ''ParseMode'',
      ''re'', ''html'', ''config'']"

definition global_name :: "string \<Rightarrow> exn + unit" where
  "global_name n = (if n \<in> set module_imports then Inr () else Inl NameError)"

definition open_read :: "'a fstate \<Rightarrow> exn + 'a" where
  "open_read f = (case f of Absent \<Rightarrow> Inl FileNotFoundError
                  | Inaccessible \<Rightarrow> Inl OSError
                  | Content c \<Rightarrow> Inr c)"

definition open_write :: "'a fstate \<Rightarrow> 'a \<Rightarrow> exn + 'a fstate" where
  "open_write f c = (case f of Inaccessible \<Rightarrow> Inl OSError | _ \<Rightarrow> Inr (Content c))"

definition feeds_header :: pystr where
  "feeds_header = asc ''# Add your RSS feeds here, one per line'' @ [10]"

definition feed_lines :: "pystr \<Rightarrow> pystr list" where
  "feed_lines text =
     map strip (filter (\<lambda>line. strip line \<noteq> [] \<and> \<not> startswith (strip line) [35])
                       (readlines text))"

text \<open>
  \<open>load_feeds\<close>. An exception raised inside the \<open>except FileNotFoundError\<close> handler
  is not caught by the \<open>except Exception\<close> clause of the same \<open>try\<close>: it leaves the
  function. \<open>os.makedirs\<close> first reads the global name \<open>os\<close>; the inner handler
  catches \<open>OSError\<close> only.
\<close>

definition load_feeds :: "world \<Rightarrow> (exn + pystr list) \<times> world" where
  "load_feeds w =
     (case open_read (feeds_file w) of
        Inr text \<Rightarrow> (Inr (feed_lines text), logger INFO ''Loaded feeds'' w)
      | Inl FileNotFoundError \<Rightarrow>
          (let w1 = logger WARNING ''Feed file not found. Creating empty file...'' w in
           case global_name ''os'' of
             Inl e \<Rightarrow> if e = OSError then
                        (case open_write (feeds_file w1) feeds_header of
                           Inl e' \<Rightarrow> (Inl e', w1)
                         | Inr f \<Rightarrow> (Inr [], w1\<lparr>feeds_file := f\<rparr>))
                      else (Inl e, w1)
           | Inr _ \<Rightarrow>
               (case open_write (feeds_file w1) feeds_header of
                  Inl e' \<Rightarrow> (Inl e', w1)
                | Inr f \<Rightarrow> (Inr [], w1\<lparr>feeds_file := f\<rparr>)))
      | Inl e \<Rightarrow> (Inr [], logger ERROR ''Error loading feeds'' w))"

definition json_load :: "json_doc \<Rightarrow> exn + store" where
  "json_load d = (case d of Malformed \<Rightarrow> Inl JSONDecodeError | Json s \<Rightarrow> Inr s)"

definition load_sent_items :: "world \<Rightarrow> exn + store" where
  "load_sent_items w =
     (case (case open_read (history_file w) of Inl e \<Rightarrow> Inl e | Inr d \<Rightarrow> json_load d) of
        Inr s \<Rightarrow> Inr s
      | Inl e \<Rightarrow> if e = FileNotFoundError \<or> e = JSONDecodeError then Inr Map.empty else Inl e)"

definition save_sent_items :: "store \<Rightarrow> world \<Rightarrow> (exn + unit) \<times> world" where
  "save_sent_items sent_items w =
     (case open_write (history_file w) (Json sent_items) of
        Inl e \<Rightarrow> (Inl e, w)
      | Inr f \<Rightarrow> (Inr (), w\<lparr>history_file := f\<rparr>))"

section \<open>The image pattern\<close>

text \<open>
  \<^verbatim>\<open>re.search(r'<img[^>]+src=["\'](.*?)["\']', s, re.IGNORECASE)\<close> and group 1 of
  its match, in the order in which the matcher tries: the start positions from the left;
  at a start, after \<open><img\<close>, the greedy \<open>[^>]+\<close> takes the longest run without
  \<open>>\<close> first and gives back one character at a time, so the positions of \<open>src=\<close>
  are tried from the right, up to the first \<open>>\<close>; after the opening quote the lazy
  \<open>(.*?)\<close> stops at the first quote, and \<open>.\<close> does not match a newline.

  Under \<open>re.IGNORECASE\<close> a letter of the pattern matches both cases and the code
  points whose lower case it is or that the matcher adds (dotted and dotless i for
  \<open>i\<close>, long s for \<open>s\<close>, the Kelvin sign for \<open>k\<close>).
\<close>

definition ci_match :: "nat \<Rightarrow> nat \<Rightarrow> bool" where
  "ci_match c p \<longleftrightarrow>
     c = p \<or> (97 \<le> p \<and> p \<le> 122 \<and> c + 32 = p) \<or>
     (p = 105 \<and> (c = 304 \<or> c = 305)) \<or> (p = 115 \<and> c = 383) \<or> (p = 107 \<and> c = 8490)"

definition quote_char :: "nat \<Rightarrow> bool" where
  "quote_char c \<longleftrightarrow> c = 34 \<or> c = 39"

definition lit_at :: "pystr \<Rightarrow> nat \<Rightarrow> pystr \<Rightarrow> bool" where
  "lit_at s i pat \<longleftrightarrow>
     i + length pat \<le> length s \<and> list_all2 ci_match (take (length pat) (drop i s)) pat"

definition group_at :: "pystr \<Rightarrow> nat \<Rightarrow> pystr option" where
  "group_at s q =
     (let g = takeWhile (\<lambda>c. \<not> quote_char c) (drop q s)
      in if dropWhile (\<lambda>c. \<not> quote_char c) (drop q s) \<noteq> [] \<and> 10 \<notin> set g
         then Some g else None)"

definition src_at :: "pystr \<Rightarrow> nat \<Rightarrow> pystr option" where
  "src_at s p =
     (if lit_at s p (asc ''src='') \<and> p + 4 < length s \<and> quote_char (s ! (p + 4))
      then group_at s (p + 5) else None)"

definition tag_end :: "pystr \<Rightarrow> nat \<Rightarrow> nat" where
  "tag_end s i = i + 4 + length (takeWhile (\<lambda>c. c \<noteq> 62) (drop (i + 4) s))"

definition tag_at :: "pystr \<Rightarrow> nat \<Rightarrow> pystr option" where
  "tag_at s i =
     (if lit_at s i (asc ''<img'') then
        (case List.find (\<lambda>p. src_at s p \<noteq> None) (rev [i + 5..<Suc (tag_end s i)]) of
           Some p \<Rightarrow> src_at s p
         | None \<Rightarrow> None)
      else None)"

definition re_search_img :: "pystr \<Rightarrow> pystr option" where
  "re_search_img s =
     (case List.find (\<lambda>i. tag_at s i \<noteq> None) [0..<length s] of
        Some i \<Rightarrow> tag_at s i
      | None \<Rightarrow> None)"

section \<open>extract_image\<close>

definition get_default :: "pystr option \<Rightarrow> pystr" where
  "get_default v = (case v of None \<Rightarrow> [] | Some x \<Rightarrow> x)"

definition image_slash :: pystr where
  "image_slash = asc ''image/''"

text \<open>
  Each \<open>for\<close> loop with a \<open>return\<close> inside gives \<open>Some r\<close> when it returns \<open>r\<close>
  (which may be Python's \<open>None\<close>) and \<open>None\<close> when it runs to its end.
\<close>

fun media_loop :: "media list \<Rightarrow> pystr option option" where
  "media_loop [] = None"
| "media_loop (m # ms) =
     (if startswith (get_default (m_type m)) image_slash \<or> m_medium m = Some (asc ''image'')
      then Some (m_url m) else media_loop ms)"

fun enclosure_loop :: "enclosure list \<Rightarrow> pystr option option" where
  "enclosure_loop [] = None"
| "enclosure_loop (en # ens) =
     (if startswith (get_default (enc_type en)) image_slash
      then Some (enc_href en) else enclosure_loop ens)"

fun content_loop :: "content_block list \<Rightarrow> pystr option option" where
  "content_loop [] = None"
| "content_loop (c # cs) =
     (case re_search_img (get_default (c_value c)) of
        Some g \<Rightarrow> Some (Some g)
      | None \<Rightarrow> content_loop cs)"

text \<open>\<^verbatim>\<open>getattr(entry, 'description', '') or getattr(entry, 'summary', '')\<close>\<close>

definition raw_desc :: "raw_entry \<Rightarrow> pystr" where
  "raw_desc entry =
     (if get_default (e_description entry) \<noteq> [] then get_default (e_description entry)
      else get_default (e_summary entry))"

definition extract_content :: "raw_entry \<Rightarrow> pystr option" where
  "extract_content entry =
     (case e_content entry of
        None \<Rightarrow> None
      | Some cs \<Rightarrow> (case content_loop cs of Some r \<Rightarrow> r | None \<Rightarrow> None))"

definition extract_description :: "raw_entry \<Rightarrow> pystr option" where
  "extract_description entry =
     (let description = raw_desc entry in
      if description \<noteq> [] then
        (case re_search_img description of
           Some g \<Rightarrow> Some g
         | None \<Rightarrow> extract_content entry)
      else extract_content entry)"

definition extract_thumbnail :: "raw_entry \<Rightarrow> pystr option" where
  "extract_thumbnail entry =
     (case e_media_thumbnail entry of
        None \<Rightarrow> extract_description entry
      | Some ts \<Rightarrow> (case ts of [] \<Rightarrow> extract_description entry | t # _ \<Rightarrow> th_url t))"

definition extract_enclosure :: "raw_entry \<Rightarrow> pystr option" where
  "extract_enclosure entry =
     (case e_enclosures entry of
        None \<Rightarrow> extract_thumbnail entry
      | Some ens \<Rightarrow> (case enclosure_loop ens of
                      Some r \<Rightarrow> r
                    | None \<Rightarrow> extract_thumbnail entry))"

text \<open>
  \<open>extract_image\<close>: the five steps of the source in their order, each falling through to
  the next (\<open>extract_enclosure\<close> is step 2 and what follows it, and so on).
\<close>

definition extract_image :: "raw_entry \<Rightarrow> pystr option" where
  "extract_image entry =
     (case e_media_content entry of
        None \<Rightarrow> extract_enclosure entry
      | Some ms \<Rightarrow> (case media_loop ms of
                     Some r \<Rightarrow> r
                   | None \<Rightarrow> extract_enclosure entry))"

section \<open>send_single_article\<close>

definition truncate_description :: "pystr \<Rightarrow> pystr" where
  "truncate_description description =
     (let max_desc_len = 800 in
      if length description > max_desc_len
      then take (max_desc_len - 3) description @ asc ''...''
      else description)"

text \<open>The description as it goes into the message (lines 125 to 132).\<close>

definition rendered_description :: "lib \<Rightarrow> config \<Rightarrow> raw_entry \<Rightarrow> pystr" where
  "rendered_description l cfg entry =
     truncate_description
       (if INCLUDE_DESCRIPTION cfg then strip_html l (raw_desc entry) else [])"

text \<open>
  The first line of the message starts with the three code points that the source file
  has before the space (U+00E2, U+20AC, U+00A2).
\<close>

definition entry_title :: "raw_entry \<Rightarrow> pystr" where
  "entry_title entry = (case e_title entry of Some t \<Rightarrow> t | None \<Rightarrow> asc ''No title'')"

definition entry_link :: "raw_entry \<Rightarrow> pystr" where
  "entry_link entry = (case e_link entry of Some k \<Rightarrow> k | None \<Rightarrow> [])"

definition message_head :: "raw_entry \<Rightarrow> pystr \<Rightarrow> pystr" where
  "message_head entry feed_title =
     (let title = entry_title entry;
          link = entry_link entry
      in [226, 8364, 162] @ asc '' ['' @ title @ asc '']('' @ link @ asc '')'' @ [10] @
         asc ''_'' @ feed_title @ asc ''_'')"

definition message_text :: "lib \<Rightarrow> config \<Rightarrow> raw_entry \<Rightarrow> pystr \<Rightarrow> pystr" where
  "message_text l cfg entry feed_title =
     (let description = rendered_description l cfg entry in
      if description \<noteq> [] then message_head entry feed_title @ [10, 10] @ description
      else message_head entry feed_title)"

definition make_kwargs :: "config \<Rightarrow> pystr option \<Rightarrow> env_int \<Rightarrow> exn + kwargs" where
  "make_kwargs cfg chat topic_id =
     (case topic_id of
        EnvUnset \<Rightarrow> Inr \<lparr>chat_id = chat, disable_notification = DISABLE_NOTIFICATION cfg,
                        message_thread_id = None\<rparr>
      | EnvInvalid \<Rightarrow> Inl ValueError
      | EnvInt n \<Rightarrow> Inr \<lparr>chat_id = chat, disable_notification = DISABLE_NOTIFICATION cfg,
                         message_thread_id = Some n\<rparr>)"

text \<open>One transport call: the bot accepts it or raises; the call is noted with its outcome.\<close>

definition bot_call :: "call \<Rightarrow> world \<Rightarrow> bool \<times> world" where
  "bot_call c w =
     (let ok = bot_accepts w (clock w) c
      in (ok, w\<lparr>clock := Suc (clock w), outbox := outbox w @ [(c, ok)]\<rparr>))"

definition truthy :: "pystr option \<Rightarrow> bool" where
  "truthy v \<longleftrightarrow> (case v of None \<Rightarrow> False | Some s \<Rightarrow> s \<noteq> [])"

definition send_single_article ::
  "lib \<Rightarrow> config \<Rightarrow> world \<Rightarrow> pystr option \<Rightarrow> raw_entry \<Rightarrow> pystr \<Rightarrow> env_int \<Rightarrow> (exn + bool) \<times> world"
where
  "send_single_article l cfg w chat entry feed_title topic_id =
     (let text = message_text l cfg entry feed_title;
          image_url = extract_image entry
      in case make_kwargs cfg chat topic_id of
           Inl e \<Rightarrow> (Inl e, w)
         | Inr kw \<Rightarrow>
             if truthy image_url then
               (case bot_call (SendPhoto (get_default image_url) text kw) w of
                  (True, w1) \<Rightarrow> (Inr True, w1)
                | (False, w1) \<Rightarrow>
                    (let w2 = logger ERROR ''Error sending article'' w1 in
                     case bot_call (SendMessage text kw) w2 of
                       (True, w3) \<Rightarrow> (Inr True, w3)
                     | (False, w3) \<Rightarrow> (Inr False, logger ERROR ''Error sending fallback text'' w3)))
             else
               (case bot_call (SendMessage text kw) w of
                  (True, w1) \<Rightarrow> (Inr True, w1)
                | (False, w1) \<Rightarrow> (Inr False, logger ERROR ''Error sending article'' w1)))"

section \<open>check_feeds\<close>

text \<open>\<^verbatim>\<open>entry.id if hasattr(entry, 'id') else entry.link\<close>\<close>

definition entry_id :: "raw_entry \<Rightarrow> exn + pystr" where
  "entry_id entry =
     (case e_id entry of
        Some i \<Rightarrow> Inr i
      | None \<Rightarrow> (case e_link entry of Some k \<Rightarrow> Inr k | None \<Rightarrow> Inl AttributeError))"

text \<open>The first inner loop (lines 192 to 196), with \<open>new_entries\<close> as accumulator.\<close>

fun identify_new :: "pystr list \<Rightarrow> raw_entry list \<Rightarrow> raw_entry list \<Rightarrow> exn + raw_entry list" where
  "identify_new hist [] new_entries = Inr new_entries"
| "identify_new hist (entry # rest) new_entries =
     (case entry_id entry of
        Inl e \<Rightarrow> Inl e
      | Inr eid \<Rightarrow>
          if eid \<notin> set hist then identify_new hist rest (new_entries @ [entry])
          else identify_new hist rest new_entries)"

text \<open>
  The second inner loop (lines 199 to 208) over the entries in the order given. It stops
  at the first exception; the store keeps what was appended before. The pause after a
  delivery changes nothing that is modelled.
\<close>

fun deliver_loop ::
  "lib \<Rightarrow> config \<Rightarrow> pystr \<Rightarrow> pystr \<Rightarrow> raw_entry list \<Rightarrow> store \<Rightarrow> world \<Rightarrow> exn option \<times> store \<times> world"
where
  "deliver_loop l cfg feed_url feed_title [] sent_items w = (None, sent_items, w)"
| "deliver_loop l cfg feed_url feed_title (entry # rest) sent_items w =
     (case entry_id entry of
        Inl e \<Rightarrow> (Some e, sent_items, w)
      | Inr eid \<Rightarrow>
          (let w1 = logger INFO ''New entry found'' w in
           case send_single_article l cfg w1 (TELEGRAM_CHAT_ID cfg) entry feed_title
                  (TELEGRAM_TOPIC_ID cfg) of
             (Inl e, w2) \<Rightarrow>
               (Some e, sent_items, w2\<lparr>journal := journal w2 @ [(feed_url, entry, Inl e)]\<rparr>)
           | (Inr success, w2) \<Rightarrow>
               (let w3 = w2\<lparr>journal := journal w2 @ [(feed_url, entry, Inr success)]\<rparr> in
                if success then
                  (case sent_items feed_url of
                     None \<Rightarrow> (Some KeyError, sent_items, w3)
                   | Some h \<Rightarrow>
                       (let sent_items' = sent_items(feed_url \<mapsto> h @ [eid]) in
                        case save_sent_items sent_items' w3 of
                          (Inl e, w4) \<Rightarrow> (Some e, sent_items', w4)
                        | (Inr _, w4) \<Rightarrow>
                            deliver_loop l cfg feed_url feed_title rest sent_items' w4))
                else deliver_loop l cfg feed_url feed_title rest sent_items w3)))"

definition setdefault :: "store \<Rightarrow> pystr \<Rightarrow> store" where
  "setdefault sent_items feed_url =
     (case sent_items feed_url of None \<Rightarrow> sent_items(feed_url \<mapsto> []) | Some _ \<Rightarrow> sent_items)"

text \<open>The body of the \<open>try\<close> of one feed (lines 182 to 208).\<close>

definition try_feed ::
  "lib \<Rightarrow> config \<Rightarrow> pystr \<Rightarrow> store \<Rightarrow> world \<Rightarrow> exn option \<times> store \<times> world"
where
  "try_feed l cfg feed_url sent_items w =
     (let w1 = w\<lparr>clock := Suc (clock w)\<rparr> in
      case feedparser_parse w (clock w) feed_url of
        Inl e \<Rightarrow> (Some e, sent_items, w1)
      | Inr fd \<Rightarrow>
          if f_entries fd = [] then
            (None, sent_items, logger WARNING ''No entries found in feed'' w1)
          else
            (let feed_title = (case f_title fd of Some t \<Rightarrow> t | None \<Rightarrow> feed_url);
                 sent_items1 = setdefault sent_items feed_url
             in case identify_new (hist_of sent_items1 feed_url) (f_entries fd) [] of
                  Inl e \<Rightarrow> (Some e, sent_items1, w1)
                | Inr new_entries \<Rightarrow>
                    deliver_loop l cfg feed_url feed_title (rev new_entries) sent_items1 w1))"

text \<open>One round of the outer loop: the \<open>try\<close> with its \<open>except Exception\<close>.\<close>

definition process_feed :: "lib \<Rightarrow> config \<Rightarrow> pystr \<Rightarrow> store \<Rightarrow> world \<Rightarrow> store \<times> world" where
  "process_feed l cfg feed_url sent_items w =
     (if strip feed_url = [] then (sent_items, w)
      else
        (let w1 = logger INFO ''Checking feed'' w in
         case try_feed l cfg feed_url sent_items w1 of
           (None, s, w2) \<Rightarrow> (s, w2)
         | (Some e, s, w2) \<Rightarrow> (s, logger ERROR ''Error checking feed'' w2)))"

fun feeds_loop :: "lib \<Rightarrow> config \<Rightarrow> pystr list \<Rightarrow> store \<Rightarrow> world \<Rightarrow> store \<times> world" where
  "feeds_loop l cfg [] sent_items w = (sent_items, w)"
| "feeds_loop l cfg (feed_url # rest) sent_items w =
     (case process_feed l cfg feed_url sent_items w of
        (s, w1) \<Rightarrow> feeds_loop l cfg rest s w1)"

definition check_feeds :: "lib \<Rightarrow> config \<Rightarrow> world \<Rightarrow> (exn + store) \<times> world" where
  "check_feeds l cfg w =
     (case load_sent_items w of
        Inl e \<Rightarrow> (Inl e, w)
      | Inr sent_items \<Rightarrow>
          (case load_feeds w of
             (Inl e, w1) \<Rightarrow> (Inl e, w1)
           | (Inr feeds, w1) \<Rightarrow>
               if feeds = [] then (Inr sent_items, logger WARNING ''No feeds to check'' w1)
               else (case feeds_loop l cfg feeds sent_items w1 of
                       (s, w2) \<Rightarrow> (Inr s, w2))))"

section \<open>The polling loop\<close>

text \<open>
  \<open>n\<close> rounds of the \<open>while True\<close> loop of \<open>main_async\<close> (lines 230 to 234); an
  exception ends the process. Between two rounds nothing but the program writes the files.
\<close>

fun run_cycles :: "lib \<Rightarrow> config \<Rightarrow> nat \<Rightarrow> world \<Rightarrow> exn option \<times> world" where
  "run_cycles l cfg 0 w = (None, w)"
| "run_cycles l cfg (Suc n) w =
     (case check_feeds l cfg w of
        (Inl e, w1) \<Rightarrow> (Some e, w1)
      | (Inr sent_items, w1) \<Rightarrow>
          (case save_sent_items sent_items w1 of
             (Inl e, w2) \<Rightarrow> (Some e, w2)
           | (Inr _, w2) \<Rightarrow> run_cycles l cfg n (logger INFO ''Next check'' w2)))"

section \<open>Observations\<close>

text \<open>
  The identifiers that the journal entries \<open>js\<close> report as sent with success for the
  feed \<open>u\<close>, in their order.
\<close>

fun delivered_ids :: "pystr \<Rightarrow> (pystr \<times> raw_entry \<times> (exn + bool)) list \<Rightarrow> pystr list" where
  "delivered_ids u [] = []"
| "delivered_ids u ((v, e, r) # js) =
     (if v = u \<and> r = Inr True
      then (case entry_id e of Inr i \<Rightarrow> i # delivered_ids u js | Inl _ \<Rightarrow> delivered_ids u js)
      else delivered_ids u js)"

text \<open>The entries of a feed that the first inner loop keeps against the history \<open>hist\<close>.\<close>

definition is_new :: "pystr list \<Rightarrow> raw_entry \<Rightarrow> bool" where
  "is_new hist entry \<longleftrightarrow> (case entry_id entry of Inr i \<Rightarrow> i \<notin> set hist | Inl _ \<Rightarrow> False)"

text \<open>What one cycle added to the journal.\<close>

definition journal_since :: "world \<Rightarrow> world \<Rightarrow> (pystr \<times> raw_entry \<times> (exn + bool)) list" where
  "journal_since w w' = drop (length (journal w)) (journal w')"

text \<open>The entry of a journal record.\<close>

definition journal_entry :: "pystr \<times> raw_entry \<times> (exn + bool) \<Rightarrow> raw_entry" where
  "journal_entry j = fst (snd j)"

text \<open>The history file after the store \<open>s\<close> has been saved.\<close>

definition stored :: "store \<Rightarrow> json_doc fstate" where
  "stored s = Content (Json s)"

text \<open>The identifiers of a list of entries, in their order.\<close>

fun entry_ids :: "raw_entry list \<Rightarrow> pystr list" where
  "entry_ids [] = []"
| "entry_ids (e # es) =
     (case entry_id e of Inr i \<Rightarrow> i # entry_ids es | Inl _ \<Rightarrow> entry_ids es)"

text \<open>
  What the second inner loop has done when it ends, for the feed \<open>u\<close> whose history
  was \<open>h\<close>: the journal records \<open>js\<close> it added are for an initial segment of the
  entries, the store has gained the identifiers sent with success, and the history file
  is as before or holds the store of an earlier successful delivery.
\<close>

definition loop_post ::
  "pystr \<Rightarrow> raw_entry list \<Rightarrow> store \<Rightarrow> pystr list \<Rightarrow> world \<Rightarrow> exn option \<Rightarrow> store \<Rightarrow> world \<Rightarrow>
   (pystr \<times> raw_entry \<times> (exn + bool)) list \<Rightarrow> bool"
where
  "loop_post u es s h w x s' w' js \<longleftrightarrow>
     journal w' = journal w @ js \<and> map journal_entry js = take (length js) es \<and>
     (\<forall>j\<in>set js. fst j = u) \<and> s' = s(u \<mapsto> h @ delivered_ids u js) \<and>
     (x = None \<longrightarrow> length js = length es) \<and>
     (history_file w' = history_file w \<or>
      (\<exists>d. d \<noteq> [] \<and> prefix d (delivered_ids u js) \<and>
           history_file w' = stored (s(u \<mapsto> h @ d))))"

text \<open>
  What part of a cycle has done: it added the journal records \<open>js\<close>, each for an entry
  that was new against the store \<open>s\<close> it started from; every history grew by the
  identifiers sent with success; no feed was dropped from the store; the history file is
  as before or holds a store that extends \<open>s\<close>, and it is as before when nothing was
  sent with success.
\<close>

definition cycle_post ::
  "store \<Rightarrow> world \<Rightarrow> store \<Rightarrow> world \<Rightarrow> (pystr \<times> raw_entry \<times> (exn + bool)) list \<Rightarrow> bool"
where
  "cycle_post s w s' w' js \<longleftrightarrow>
     journal w' = journal w @ js \<and>
     (\<forall>j\<in>set js. is_new (hist_of s (fst j)) (journal_entry j)) \<and>
     (\<forall>v. hist_of s' v = hist_of s v @ delivered_ids v js) \<and>
     dom s \<subseteq> dom s' \<and>
     (history_file w' = history_file w \<or>
      (\<exists>t. history_file w' = stored t \<and> (\<forall>v. prefix (hist_of s v) (hist_of t v)))) \<and>
     ((\<forall>v. delivered_ids v js = []) \<longrightarrow> history_file w' = history_file w)"

text \<open>The transport calls that one cycle added to the outbox.\<close>

definition outbox_since :: "world \<Rightarrow> world \<Rightarrow> (call \<times> bool) list" where
  "outbox_since w w' = drop (length (outbox w)) (outbox w')"

text \<open>\<^verbatim>\<open>feed.feed.get('title', feed_url)\<close>\<close>

definition feed_title_of :: "feed \<Rightarrow> pystr \<Rightarrow> pystr" where
  "feed_title_of fd feed_url = (case f_title fd of Some t \<Rightarrow> t | None \<Rightarrow> feed_url)"

text \<open>
  The transport calls \<open>b\<close> of one call of \<open>send_single_article\<close> that returned
  \<open>r\<close>: none when the topic id is no integer; with an image URL the image send, and
  after its failure the text send; without one the text send alone. Every call carries
  the message text of the entry.
\<close>

definition article_calls ::
  "lib \<Rightarrow> config \<Rightarrow> pystr \<Rightarrow> raw_entry \<Rightarrow> exn + bool \<Rightarrow> (call \<times> bool) list \<Rightarrow> bool"
where
  "article_calls l cfg feed_title entry r b \<longleftrightarrow>
     (case make_kwargs cfg (TELEGRAM_CHAT_ID cfg) (TELEGRAM_TOPIC_ID cfg) of
        Inl e \<Rightarrow> r = Inl e \<and> b = []
      | Inr kw \<Rightarrow>
          (let text = message_text l cfg entry feed_title;
               image_url = extract_image entry
           in if truthy image_url then
                r = Inr True \<and> b = [(SendPhoto (get_default image_url) text kw, True)] \<or>
                r = Inr True \<and> b = [(SendPhoto (get_default image_url) text kw, False),
                                     (SendMessage text kw, True)] \<or>
                r = Inr False \<and> b = [(SendPhoto (get_default image_url) text kw, False),
                                      (SendMessage text kw, False)]
              else
                r = Inr True \<and> b = [(SendMessage text kw, True)] \<or>
                r = Inr False \<and> b = [(SendMessage text kw, False)]))"

text \<open>The same for a journal record.\<close>

definition record_calls ::
  "lib \<Rightarrow> config \<Rightarrow> pystr \<Rightarrow> pystr \<times> raw_entry \<times> (exn + bool) \<Rightarrow> (call \<times> bool) list \<Rightarrow> bool"
where
  "record_calls l cfg feed_title j b \<longleftrightarrow>
     article_calls l cfg feed_title (journal_entry j) (snd (snd j)) b"

text \<open>
  What a part of a cycle has sent: the journal grew by the records \<open>js\<close>, the outbox by
  the calls of these records, record after record.
\<close>

definition calls_post ::
  "lib \<Rightarrow> config \<Rightarrow> pystr \<Rightarrow> world \<Rightarrow> world \<Rightarrow>
   (pystr \<times> raw_entry \<times> (exn + bool)) list \<Rightarrow> (call \<times> bool) list list \<Rightarrow> bool"
where
  "calls_post l cfg ft w w' js blocks \<longleftrightarrow>
     journal w' = journal w @ js \<and> outbox w' = outbox w @ concat blocks \<and>
     list_all2 (record_calls l cfg ft) js blocks"

section \<open>The resolution order, as the specification words it\<close>










section \<open>Example inputs\<close>

text \<open>
  A library that finds no entity; the configuration of \<open>config.py\<close>
  with a chat id and no topic; a world with no files, a parser that fails and a bot that
  accepts every call.
\<close>

definition plain_lib :: lib where
  "plain_lib = \<lparr>html_unescape = id\<rparr>"

definition example_chat :: "pystr option" where
  "example_chat = Some (asc ''42'')"

definition plain_config :: config where
  "plain_config = default_config example_chat EnvUnset"

definition quiet_world :: world where
  "quiet_world = \<lparr>feeds_file = Absent, history_file = Absent, clock = 0,
     feedparser_parse = (\<lambda>_ _. Inl FeedError), bot_accepts = (\<lambda>_ _. True),
     outbox = [], logged = [], journal = []\<rparr>"

definition blank_entry :: raw_entry where
  "blank_entry = \<lparr>e_id = None, e_title = None, e_link = None, e_description = None,
     e_summary = None, e_media_content = None, e_enclosures = None,
     e_media_thumbnail = None, e_content = None\<rparr>"

definition long_title_entry :: raw_entry where
  "long_title_entry = blank_entry\<lparr>e_title := Some (replicate 5000 120)\<rparr>"

text \<open>
  An entry with an image attachment, one whose attachment has the empty string as URL, a
  bot that rejects every image, and feeds whose entries carry a number as id.
\<close>

definition photo_entry :: raw_entry where
  "photo_entry = blank_entry\<lparr>e_id := Some (asc ''id-1''),
     e_media_content := Some [\<lparr>m_type = Some (asc ''image/png''), m_medium = None,
                               m_url = Some (asc ''http://x/i.png'')\<rparr>]\<rparr>"

definition empty_url_entry :: raw_entry where
  "empty_url_entry = blank_entry\<lparr>e_id := Some (asc ''id-2''),
     e_media_content := Some [\<lparr>m_type = Some (asc ''image/png''), m_medium = None,
                               m_url = Some []\<rparr>]\<rparr>"

fun is_photo :: "call \<Rightarrow> bool" where
  "is_photo (SendPhoto _ _ _) = True"
| "is_photo (SendMessage _ _) = False"

definition no_photo_world :: world where
  "no_photo_world = quiet_world\<lparr>bot_accepts := (\<lambda>_ c. \<not> is_photo c)\<rparr>"

definition plain_kwargs :: kwargs where
  "plain_kwargs =
     \<lparr>chat_id = example_chat, disable_notification = False, message_thread_id = None\<rparr>"

definition example_url :: pystr where
  "example_url = asc ''http://f''"

definition numbered_entry :: "nat \<Rightarrow> raw_entry" where
  "numbered_entry n = blank_entry\<lparr>e_id := Some [n]\<rparr>"

definition numbered_feed :: "nat list \<Rightarrow> feed" where
  "numbered_feed ns = \<lparr>f_title = Some (asc ''Feed''), f_entries = map numbered_entry ns\<rparr>"

definition feed_world :: "nat list \<Rightarrow> world" where
  "feed_world ns = quiet_world\<lparr>feeds_file := Content example_url,
     feedparser_parse := (\<lambda>_ _. Inr (numbered_feed ns))\<rparr>"

text \<open>
  A configuration whose topic id is no integer, a feed whose second entry has neither id
  nor link, and the text send for a numbered entry.
\<close>

definition bad_topic_config :: config where
  "bad_topic_config = plain_config\<lparr>TELEGRAM_TOPIC_ID := EnvInvalid\<rparr>"

definition unnamed_world :: world where
  "unnamed_world = quiet_world\<lparr>feeds_file := Content example_url,
     feedparser_parse := (\<lambda>_ _. Inr \<lparr>f_title = Some (asc ''Feed''),
                                       f_entries = [numbered_entry 2, blank_entry]\<rparr>)\<rparr>"

definition numbered_message :: "nat \<Rightarrow> call" where
  "numbered_message n =
     SendMessage (message_text plain_lib plain_config (numbered_entry n) (asc ''Feed'')) plain_kwargs"




text \<open>An entry with a description of 1000 letters, and a configuration that shows it.\<close>

definition described_entry :: raw_entry where
  "described_entry = blank_entry\<lparr>e_description := Some (replicate 1000 120)\<rparr>"

definition verbose_config :: config where
  "verbose_config = plain_config\<lparr>INCLUDE_DESCRIPTION := True\<rparr>"

text \<open>A store in which entry 2 of the example feed is already recorded, and a world with it.\<close>

definition seen_store :: store where
  "seen_store = Map.empty(example_url \<mapsto> [[2]])"

definition seen_world :: world where
  "seen_world = (feed_world [3, 2, 1])\<lparr>history_file := Content (Json seen_store)\<rparr>"

text \<open>The history of a feed in the value returned by \<open>check_feeds\<close>.\<close>

definition returned_history :: "exn + store \<Rightarrow> pystr \<Rightarrow> pystr list" where
  "returned_history r u = (case r of Inr s \<Rightarrow> hist_of s u | Inl _ \<Rightarrow> [])"

section \<open>The feed list file\<close>

text \<open>
  C3. With the feed list file absent, \<open>load_feeds\<close> logs its warning and then raises
  \<open>NameError\<close>, since \<open>os\<close> is not imported: the file is not created, no empty
  list is returned, and \<open>check_feeds\<close> ends with the exception.
\<close>

theorem load_feeds_absent:
  "fst (load_feeds quiet_world) = Inl NameError \<and>
   feeds_file (snd (load_feeds quiet_world)) = Absent \<and>
   logged (snd (load_feeds quiet_world)) = [(WARNING, ''Feed file not found. Creating empty file...'')] \<and>
   fst (check_feeds plain_lib plain_config quiet_world) = Inl NameError"
  by (simp add: load_feeds_def check_feeds_def load_sent_items_def open_read_def logger_def
      global_name_def module_imports_def quiet_world_def)

section \<open>The history file\<close>

text \<open>
  C8, as amended. \<open>load_sent_items\<close> returns the empty store when the history file is
  absent or \<open>json.load\<close> rejects its content, and the stored dict when it parses; when
  the file cannot be opened for another reason the error reaches the caller.
\<close>

theorem load_sent_items_cases:
  "load_sent_items w =
     (case history_file w of
        Absent \<Rightarrow> Inr Map.empty
      | Inaccessible \<Rightarrow> Inl OSError
      | Content Malformed \<Rightarrow> Inr Map.empty
      | Content (Json s) \<Rightarrow> Inr s)"
  by (simp add: load_sent_items_def open_read_def json_load_def
      split: fstate.splits json_doc.splits)

text \<open>C8 as stated fails: a history file that cannot be opened makes the load raise.\<close>

theorem load_sent_items_counterexample:
  "load_sent_items (quiet_world\<lparr>history_file := Inaccessible\<rparr>) = Inl OSError"
  by (simp add: load_sent_items_def open_read_def quiet_world_def)

section \<open>The message text\<close>

lemma remove_tags_plain: "60 \<notin> set s \<Longrightarrow> remove_tags s = s"
  by (induction s) simp_all

lemma split_acc_plain:
  "\<forall>c\<in>set s. \<not> isspace c \<Longrightarrow> split_acc cur s = (if cur @ s = [] then [] else [cur @ s])"
  by (induction s arbitrary: cur) simp_all

lemma strip_html_plain:
  assumes "60 \<notin> set s" and "\<forall>c\<in>set s. \<not> isspace c"
  shows "strip_html plain_lib s = s"
proof (cases "s = []")
  case True
  then show ?thesis by (simp add: strip_html_def plain_lib_def split_def)
next
  case False
  then show ?thesis
    using assms by (simp add: strip_html_def plain_lib_def split_def remove_tags_plain split_acc_plain)
qed

lemma described_entry_text:
  "strip_html plain_lib (raw_desc described_entry) = replicate 1000 120"
proof -
  have "raw_desc described_entry = replicate 1000 120"
    by (simp add: raw_desc_def described_entry_def blank_entry_def get_default_def)
  moreover have "strip_html plain_lib (replicate 1000 120) = replicate 1000 120"
    by (rule strip_html_plain) (simp_all add: isspace_def)
  ultimately show ?thesis by simp
qed

text \<open>
  C5. A description longer than 800 code points is cut to its first 797 followed by
  three dots, 800 in all; a description of at most 800 stays as it is. The description
  that goes into the message is the result of this cut, and the message ends with it.
\<close>

theorem description_truncation:
  "(800 < length d \<longrightarrow>
      truncate_description d = take 797 d @ asc ''...'' \<and> length (truncate_description d) = 800) \<and>
   (length d \<le> 800 \<longrightarrow> truncate_description d = d) \<and>
   rendered_description l cfg entry =
     truncate_description (if INCLUDE_DESCRIPTION cfg then strip_html l (raw_desc entry) else []) \<and>
   (INCLUDE_DESCRIPTION cfg \<and> 800 < length (strip_html l (raw_desc entry)) \<longrightarrow>
      message_text l cfg entry feed_title =
        message_head entry feed_title @ [10, 10] @
        take 797 (strip_html l (raw_desc entry)) @ asc ''...'')"
proof -
  have long: "truncate_description d = take 797 d @ asc ''...''" if "800 < length d" for d
    using that by (simp add: truncate_description_def)
  have len: "length (truncate_description d) = 800" if "800 < length d" for d
    using that by (simp add: long asc_def)
  have short: "truncate_description d = d" if "length d \<le> 800" for d
    using that by (simp add: truncate_description_def)
  have rd: "rendered_description l cfg entry =
     truncate_description (if INCLUDE_DESCRIPTION cfg then strip_html l (raw_desc entry) else [])"
    by (simp add: rendered_description_def)
  have msg: "message_text l cfg entry feed_title =
        message_head entry feed_title @ [10, 10] @
        take 797 (strip_html l (raw_desc entry)) @ asc ''...''"
    if "INCLUDE_DESCRIPTION cfg" and "800 < length (strip_html l (raw_desc entry))"
  proof -
    from that have "rendered_description l cfg entry =
        take 797 (strip_html l (raw_desc entry)) @ asc ''...''"
      by (simp add: rd long)
    moreover have "take 797 (strip_html l (raw_desc entry)) @ asc ''...'' \<noteq> []"
      by (simp add: asc_def)
    ultimately show ?thesis by (simp add: message_text_def)
  qed
  from long len short rd msg show ?thesis by blast
qed

theorem description_truncation_witness:
  "800 < length (replicate 1000 (120::nat)) \<and>
   truncate_description (replicate 1000 120) = replicate 797 120 @ [46, 46, 46] \<and>
   length (truncate_description (replicate 1000 120)) = 800 \<and>
   length (asc ''short'') \<le> 800 \<and> truncate_description (asc ''short'') = asc ''short'' \<and>
   INCLUDE_DESCRIPTION verbose_config \<and>
   800 < length (strip_html plain_lib (raw_desc described_entry)) \<and>
   message_text plain_lib verbose_config described_entry (asc ''Feed'') =
     message_head described_entry (asc ''Feed'') @ [10, 10] @ replicate 797 120 @ [46, 46, 46]"
proof -
  have v: "INCLUDE_DESCRIPTION verbose_config" by (simp add: verbose_config_def)
  show ?thesis
    using description_truncation [of "replicate 1000 120" plain_lib verbose_config described_entry
        "asc ''Feed''"]
      description_truncation [of "asc ''short''" plain_lib verbose_config described_entry
        "asc ''Feed''"] v
    by (simp add: described_entry_text) (simp add: asc_def)
qed

lemma length_truncate_description: "length (truncate_description d) \<le> 800"
  by (simp add: truncate_description_def asc_def)

lemma length_message_head:
  "length (message_head entry ft) =
     11 + length (entry_title entry) + length (entry_link entry) + length ft"
  by (simp add: message_head_def asc_def)

text \<open>
  C9, as amended. The message is at most 813 code points longer than title, link and
  feed title together, so it stays within 4096 when these three have at most 3283.
\<close>

theorem message_length_bound:
  "length (message_text l cfg entry feed_title) \<le>
     813 + length (entry_title entry) + length (entry_link entry) + length feed_title \<and>
   (length (entry_title entry) + length (entry_link entry) + length feed_title \<le> 3283 \<longrightarrow>
      length (message_text l cfg entry feed_title) \<le> 4096)"
proof -
  have "length (rendered_description l cfg entry) \<le> 800"
    by (simp add: rendered_description_def length_truncate_description)
  then have "length (message_text l cfg entry feed_title) \<le>
     813 + length (entry_title entry) + length (entry_link entry) + length feed_title"
    by (simp add: message_text_def Let_def length_message_head)
  then show ?thesis by simp
qed

theorem message_length_bound_witness:
  "length (entry_title blank_entry) + length (entry_link blank_entry) + length (asc ''Feed'') \<le> 3283 \<and>
   length (message_text plain_lib plain_config blank_entry (asc ''Feed'')) \<le> 4096"
  using message_length_bound [of plain_lib plain_config blank_entry "asc ''Feed''"]
  by (simp add: entry_title_def entry_link_def blank_entry_def asc_def)

text \<open>C9 as stated fails: a title of 5000 code points gives a message beyond 4096.\<close>

theorem message_length_counterexample:
  "\<not> length (message_text plain_lib plain_config long_title_entry []) \<le> 4096"
  by (simp add: message_text_def rendered_description_def plain_config_def default_config_def
      truncate_description_def length_message_head entry_title_def entry_link_def
      long_title_entry_def blank_entry_def)

section \<open>The image URL\<close>

subsection \<open>The loops of extract_image\<close>












subsection \<open>The matches of the image pattern\<close>












subsection \<open>The resolution order\<close>








section \<open>Sending one article\<close>

lemma bot_call_eq:
  "bot_call c w = (bot_accepts w (clock w) c,
                   w\<lparr>clock := Suc (clock w), outbox := outbox w @ [(c, bot_accepts w (clock w) c)]\<rparr>)"
  by (simp add: bot_call_def Let_def)

lemma extract_photo: "extract_image photo_entry = Some (asc ''http://x/i.png'')"
  by (simp add: extract_image_def photo_entry_def blank_entry_def startswith_def
      get_default_def image_slash_def asc_def)

lemma extract_empty_url: "extract_image empty_url_entry = Some []"
  by (simp add: extract_image_def empty_url_entry_def blank_entry_def startswith_def
      get_default_def image_slash_def asc_def)

text \<open>
  C6, as amended. For an entry whose image URL is present and not empty, and a topic id
  that is unset or an integer: the image send comes first; when it fails, a text send
  with the same message text follows; the result is success exactly when one of the two
  succeeds.
\<close>

theorem image_fallback:
  assumes "extract_image entry = Some u" and "u \<noteq> []"
    and "make_kwargs cfg chat topic = Inr kw"
  shows "fst (send_single_article l cfg w chat entry feed_title topic) =
           Inr (bot_accepts w (clock w) (SendPhoto u (message_text l cfg entry feed_title) kw) \<or>
                bot_accepts w (Suc (clock w)) (SendMessage (message_text l cfg entry feed_title) kw)) \<and>
         outbox (snd (send_single_article l cfg w chat entry feed_title topic)) =
           outbox w @
           (if bot_accepts w (clock w) (SendPhoto u (message_text l cfg entry feed_title) kw)
            then [(SendPhoto u (message_text l cfg entry feed_title) kw, True)]
            else [(SendPhoto u (message_text l cfg entry feed_title) kw, False),
                  (SendMessage (message_text l cfg entry feed_title) kw,
                   bot_accepts w (Suc (clock w)) (SendMessage (message_text l cfg entry feed_title) kw))])"
  using assms
  by (simp add: send_single_article_def Let_def truthy_def get_default_def bot_call_def logger_def
      split: prod.splits bool.splits)

theorem image_fallback_witness:
  "extract_image photo_entry = Some (asc ''http://x/i.png'') \<and>
   asc ''http://x/i.png'' \<noteq> [] \<and>
   make_kwargs plain_config example_chat EnvUnset = Inr plain_kwargs \<and>
   fst (send_single_article plain_lib plain_config no_photo_world example_chat photo_entry [] EnvUnset) =
     Inr True \<and>
   outbox (snd (send_single_article plain_lib plain_config no_photo_world example_chat photo_entry []
                  EnvUnset)) =
     [(SendPhoto (asc ''http://x/i.png'') (message_text plain_lib plain_config photo_entry [])
         plain_kwargs, False),
      (SendMessage (message_text plain_lib plain_config photo_entry []) plain_kwargs, True)]"
proof -
  have k: "make_kwargs plain_config example_chat EnvUnset = Inr plain_kwargs"
    by (simp add: make_kwargs_def plain_config_def default_config_def plain_kwargs_def)
  have n: "asc ''http://x/i.png'' \<noteq> []" by (simp add: asc_def)
  show ?thesis
    using image_fallback [OF extract_photo n k, where l = plain_lib and w = no_photo_world
        and feed_title = "[]"] extract_photo n k
    by (simp add: no_photo_world_def quiet_world_def)
qed

text \<open>
  C6 as stated fails: with an image URL that is the empty string no image send is
  attempted, and with a topic id that is no integer nothing is sent at all.
\<close>

theorem image_fallback_counterexample:
  "extract_image empty_url_entry = Some [] \<and>
   outbox (snd (send_single_article plain_lib plain_config quiet_world example_chat empty_url_entry []
                  EnvUnset)) =
     [(SendMessage (message_text plain_lib plain_config empty_url_entry []) plain_kwargs, True)] \<and>
   extract_image photo_entry = Some (asc ''http://x/i.png'') \<and>
   send_single_article plain_lib plain_config quiet_world example_chat photo_entry [] EnvInvalid =
     (Inl ValueError, quiet_world)"
proof -
  have k: "make_kwargs plain_config example_chat EnvUnset = Inr plain_kwargs"
    by (simp add: make_kwargs_def plain_config_def default_config_def plain_kwargs_def)
  have a: "outbox (snd (send_single_article plain_lib plain_config quiet_world example_chat
                  empty_url_entry [] EnvUnset)) =
     [(SendMessage (message_text plain_lib plain_config empty_url_entry []) plain_kwargs, True)]"
    by (simp add: send_single_article_def Let_def k extract_empty_url truthy_def bot_call_def
        quiet_world_def split: prod.splits bool.splits)
  have b: "send_single_article plain_lib plain_config quiet_world example_chat photo_entry [] EnvInvalid =
     (Inl ValueError, quiet_world)"
    by (simp add: send_single_article_def Let_def make_kwargs_def)
  show ?thesis using a b extract_empty_url extract_photo by simp
qed

section \<open>The loops of check_feeds\<close>

lemma send_single_article_frame:
  assumes "send_single_article l cfg w chat entry ft topic = (r, w')"
  shows "journal w' = journal w" and "history_file w' = history_file w"
    and "feeds_file w' = feeds_file w" and "bot_accepts w' = bot_accepts w"
    and "feedparser_parse w' = feedparser_parse w"
  using assms
  by (auto simp: send_single_article_def Let_def bot_call_def logger_def
      split: sum.splits if_splits prod.splits bool.splits)

lemma save_sent_items_frame:
  assumes "save_sent_items s w = (r, w')"
  shows "journal w' = journal w" and "feeds_file w' = feeds_file w"
    and "bot_accepts w' = bot_accepts w" and "feedparser_parse w' = feedparser_parse w"
    and "r = Inr () \<Longrightarrow> history_file w' = stored s"
    and "r \<noteq> Inr () \<Longrightarrow> w' = w"
    and "history_file w \<noteq> Inaccessible \<Longrightarrow> r = Inr ()"
  using assms
  by (auto simp: save_sent_items_def open_write_def stored_def split: sum.splits fstate.splits)

lemma load_feeds_frame:
  assumes "load_feeds w = (r, w')"
  shows "journal w' = journal w" and "history_file w' = history_file w"
  using assms
  by (auto simp: load_feeds_def logger_def Let_def open_read_def open_write_def
      split: sum.splits exn.splits fstate.splits if_splits)

lemma delivered_ids_append:
  "delivered_ids u (js @ ks) = delivered_ids u js @ delivered_ids u ks"
  by (induction u js rule: delivered_ids.induct) (auto split: sum.splits)

lemma delivered_ids_other:
  "\<forall>j\<in>set js. fst j = u \<Longrightarrow> v \<noteq> u \<Longrightarrow> delivered_ids v js = []"
  by (induction v js rule: delivered_ids.induct) auto

lemma journal_entry_simp [simp]: "journal_entry (u, e, r) = e"
  by (simp add: journal_entry_def)

lemma entry_ids_append: "entry_ids (xs @ ys) = entry_ids xs @ entry_ids ys"
  by (induction xs) (auto split: sum.splits)

lemma entry_id_cases: "entry_id e = Inl AttributeError \<or> (\<exists>i. entry_id e = Inr i)"
  by (auto simp: entry_id_def split: option.splits)

lemma is_new_id: "entry_id e = Inr i \<Longrightarrow> is_new hist e \<longleftrightarrow> i \<notin> set hist"
  by (simp add: is_new_def)

lemma is_new_no_id: "entry_id e = Inl x \<Longrightarrow> \<not> is_new hist e"
  by (simp add: is_new_def)

lemma is_new_mono:
  "is_new h' e \<Longrightarrow> set h \<subseteq> set h' \<Longrightarrow> is_new h e"
  by (auto simp: is_new_def split: sum.splits)

lemma identify_new_result:
  "identify_new hist es acc =
     (if \<forall>e\<in>set es. entry_id e \<noteq> Inl AttributeError
      then Inr (acc @ filter (is_new hist) es) else Inl AttributeError)"
proof (induction es arbitrary: acc)
  case Nil
  then show ?case by simp
next
  case (Cons e es)
  then show ?case
    using entry_id_cases [of e] by (auto simp: is_new_id)
qed

lemma send_single_article_returns:
  assumes "topic \<noteq> EnvInvalid"
  shows "\<exists>b. fst (send_single_article l cfg w chat entry ft topic) = Inr b"
  using assms
  by (cases topic)
     (auto simp: send_single_article_def make_kwargs_def Let_def split: prod.splits bool.splits)

lemma send_single_article_accepted:
  assumes "topic \<noteq> EnvInvalid" and "\<forall>n c. bot_accepts w n c"
  shows "fst (send_single_article l cfg w chat entry ft topic) = Inr True"
  using assms
  by (cases topic)
     (auto simp: send_single_article_def make_kwargs_def Let_def bot_call_def
           split: prod.splits bool.splits)

lemma hist_of_setdefault: "hist_of (setdefault s u) v = hist_of s v"
  by (simp add: hist_of_def setdefault_def split: option.splits)

lemma setdefault_at: "setdefault s u u = Some (hist_of s u)"
  by (simp add: hist_of_def setdefault_def split: option.splits)

lemma dom_setdefault: "dom s \<subseteq> dom (setdefault s u)"
  by (auto simp: setdefault_def split: option.splits)

lemma hist_of_upd: "hist_of (s(u \<mapsto> h)) v = (if v = u then h else hist_of s v)"
  by (simp add: hist_of_def)

lemma deliver_loop_store:
  assumes "deliver_loop l cfg u ft es s w = (x, s', w')" and "s u = Some h"
  shows "\<exists>js. loop_post u es s h w x s' w' js"
  using assms
proof (induction es arbitrary: s w h)
  case Nil
  then have "loop_post u [] s h w x s' w' []"
    by (auto simp: loop_post_def fun_upd_idem)
  then show ?case ..
next
  case (Cons entry rest)
  show ?case
  proof (cases "entry_id entry")
    case (Inl e)
    with Cons.prems have "loop_post u (entry # rest) s h w x s' w' []"
      by (auto simp: loop_post_def fun_upd_idem)
    then show ?thesis ..
  next
    case (Inr eid)
    obtain r w2 where ssa: "send_single_article l cfg (logger INFO ''New entry found'' w)
        (TELEGRAM_CHAT_ID cfg) entry ft (TELEGRAM_TOPIC_ID cfg) = (r, w2)"
      by fastforce
    have jw2: "journal w2 = journal w" "history_file w2 = history_file w"
      using send_single_article_frame(1,2) [OF ssa] by (simp_all add: logger_def)
    show ?thesis
    proof (cases r)
      case (Inl e)
      with Cons.prems Inr ssa jw2
      have "loop_post u (entry # rest) s h w x s' w' [(u, entry, Inl e)]"
        by (auto simp: loop_post_def fun_upd_idem)
      then show ?thesis ..
    next
      case rb: (Inr success)
      let ?w3 = "w2\<lparr>journal := journal w2 @ [(u, entry, Inr success)]\<rparr>"
      show ?thesis
      proof (cases success)
        case False
        with Cons.prems Inr ssa rb
        have run: "deliver_loop l cfg u ft rest s ?w3 = (x, s', w')" by simp
        from Cons.IH [OF run Cons.prems(2)] obtain js where
          "loop_post u rest s h ?w3 x s' w' js" by blast
        with jw2 False have "loop_post u (entry # rest) s h w x s' w' ((u, entry, Inr False) # js)"
          by (auto simp: loop_post_def)
        then show ?thesis ..
      next
        case True
        let ?s1 = "s(u \<mapsto> h @ [eid])"
        obtain q w4 where sv: "save_sent_items ?s1 ?w3 = (q, w4)" by fastforce
        have jw4: "journal w4 = journal ?w3" using save_sent_items_frame(1) [OF sv] .
        show ?thesis
        proof (cases q)
          case (Inl e)
          with Cons.prems Inr ssa rb True sv
          have "x = Some e" "s' = ?s1" "w' = w4" by simp_all
          moreover have "w4 = ?w3" using save_sent_items_frame(6) [OF sv] Inl by simp
          ultimately have "loop_post u (entry # rest) s h w x s' w' [(u, entry, Inr True)]"
            using jw2 Inr True by (auto simp: loop_post_def)
          then show ?thesis ..
        next
          case qr: (Inr a)
          with Cons.prems Inr ssa rb True sv
          have run: "deliver_loop l cfg u ft rest ?s1 w4 = (x, s', w')" by simp
          have fw4: "history_file w4 = stored ?s1"
            using save_sent_items_frame(5) [OF sv] qr by simp
          have "?s1 u = Some (h @ [eid])" by simp
          from Cons.IH [OF run this] obtain js where
            post: "loop_post u rest ?s1 (h @ [eid]) w4 x s' w' js" by blast
          then have hf: "history_file w' = history_file w4 \<or>
               (\<exists>d. d \<noteq> [] \<and> prefix d (delivered_ids u js) \<and>
                    history_file w' = stored (?s1(u \<mapsto> (h @ [eid]) @ d)))"
            by (simp add: loop_post_def)
          have "\<exists>d. d \<noteq> [] \<and> prefix d (eid # delivered_ids u js) \<and>
                    history_file w' = stored (s(u \<mapsto> h @ d))"
          proof (rule disjE [OF hf])
            assume "history_file w' = history_file w4"
            with fw4 have "[eid] \<noteq> [] \<and> prefix [eid] (eid # delivered_ids u js) \<and>
                    history_file w' = stored (s(u \<mapsto> h @ [eid]))" by simp
            then show ?thesis ..
          next
            assume "\<exists>d. d \<noteq> [] \<and> prefix d (delivered_ids u js) \<and>
                    history_file w' = stored (?s1(u \<mapsto> (h @ [eid]) @ d))"
            then obtain d where "prefix d (delivered_ids u js)"
              "history_file w' = stored (?s1(u \<mapsto> (h @ [eid]) @ d))" by blast
            then have "eid # d \<noteq> [] \<and> prefix (eid # d) (eid # delivered_ids u js) \<and>
                    history_file w' = stored (s(u \<mapsto> h @ (eid # d)))" by simp
            then show ?thesis ..
          qed
          with post jw4 jw2 Inr True
          have "loop_post u (entry # rest) s h w x s' w' ((u, entry, Inr True) # js)"
            by (simp add: loop_post_def)
          then show ?thesis ..
        qed
      qed
    qed
  qed
qed

lemma deliver_loop_completes:
  assumes "TELEGRAM_TOPIC_ID cfg \<noteq> EnvInvalid" and "history_file w \<noteq> Inaccessible"
    and "\<forall>e\<in>set es. entry_id e \<noteq> Inl AttributeError" and "u \<in> dom s"
  shows "fst (deliver_loop l cfg u ft es s w) = None"
  using assms
proof (induction es arbitrary: s w)
  case Nil
  then show ?case by simp
next
  case (Cons entry rest)
  from Cons.prems(3) entry_id_cases [of entry] obtain eid where eid: "entry_id entry = Inr eid"
    by auto
  from Cons.prems(4) obtain h where h: "s u = Some h" by auto
  obtain r w2 where ssa: "send_single_article l cfg (logger INFO ''New entry found'' w)
      (TELEGRAM_CHAT_ID cfg) entry ft (TELEGRAM_TOPIC_ID cfg) = (r, w2)"
    by fastforce
  from send_single_article_returns [OF Cons.prems(1)] ssa obtain b where r: "r = Inr b"
    by (metis fst_conv)
  have fw2: "history_file w2 = history_file w"
    using send_single_article_frame(2) [OF ssa] by (simp add: logger_def)
  let ?w3 = "w2\<lparr>journal := journal w2 @ [(u, entry, Inr b)]\<rparr>"
  have fw3: "history_file ?w3 \<noteq> Inaccessible" using fw2 Cons.prems(2) by simp
  have rest: "\<forall>e\<in>set rest. entry_id e \<noteq> Inl AttributeError" using Cons.prems(3) by simp
  show ?case
  proof (cases b)
    case False
    have "fst (deliver_loop l cfg u ft rest s ?w3) = None"
      by (rule Cons.IH [OF Cons.prems(1) fw3 rest Cons.prems(4)])
    with eid ssa r False show ?thesis by simp
  next
    case True
    let ?s1 = "s(u \<mapsto> h @ [eid])"
    obtain q w4 where sv: "save_sent_items ?s1 ?w3 = (q, w4)" by fastforce
    have q: "q = Inr ()" using save_sent_items_frame(7) [OF sv fw3] .
    have "history_file w4 = stored ?s1" using save_sent_items_frame(5) [OF sv q] .
    then have fw4: "history_file w4 \<noteq> Inaccessible" by (simp add: stored_def)
    have d: "u \<in> dom ?s1" by simp
    have "fst (deliver_loop l cfg u ft rest ?s1 w4) = None"
      by (rule Cons.IH [OF Cons.prems(1) fw4 rest d])
    with eid ssa r True sv q h show ?thesis by simp
  qed
qed

lemma deliver_loop_all_sent:
  assumes "TELEGRAM_TOPIC_ID cfg \<noteq> EnvInvalid" and "history_file w \<noteq> Inaccessible"
    and "\<forall>e\<in>set es. entry_id e \<noteq> Inl AttributeError" and "u \<in> dom s"
    and "\<forall>n c. bot_accepts w n c"
  shows "hist_of (fst (snd (deliver_loop l cfg u ft es s w))) u = hist_of s u @ entry_ids es"
  using assms
proof (induction es arbitrary: s w)
  case Nil
  then show ?case by simp
next
  case (Cons entry rest)
  from Cons.prems(3) entry_id_cases [of entry] obtain eid where eid: "entry_id entry = Inr eid"
    by auto
  from Cons.prems(4) obtain h where h: "s u = Some h" by auto
  let ?w1 = "logger INFO ''New entry found'' w"
  obtain r w2 where ssa: "send_single_article l cfg ?w1
      (TELEGRAM_CHAT_ID cfg) entry ft (TELEGRAM_TOPIC_ID cfg) = (r, w2)"
    by fastforce
  have "\<forall>n c. bot_accepts ?w1 n c" using Cons.prems(5) by (simp add: logger_def)
  from send_single_article_accepted [OF Cons.prems(1) this] ssa have r: "r = Inr True"
    by (metis fst_conv)
  have fw2: "history_file w2 = history_file w" "bot_accepts w2 = bot_accepts w"
    using send_single_article_frame(2,4) [OF ssa] by (simp_all add: logger_def)
  let ?w3 = "w2\<lparr>journal := journal w2 @ [(u, entry, Inr True)]\<rparr>"
  have fw3: "history_file ?w3 \<noteq> Inaccessible" using fw2 Cons.prems(2) by simp
  have rest: "\<forall>e\<in>set rest. entry_id e \<noteq> Inl AttributeError" using Cons.prems(3) by simp
  let ?s1 = "s(u \<mapsto> h @ [eid])"
  obtain q w4 where sv: "save_sent_items ?s1 ?w3 = (q, w4)" by fastforce
  have q: "q = Inr ()" using save_sent_items_frame(7) [OF sv fw3] .
  have "history_file w4 = stored ?s1" using save_sent_items_frame(5) [OF sv q] .
  then have fw4: "history_file w4 \<noteq> Inaccessible" by (simp add: stored_def)
  have bw4: "\<forall>n c. bot_accepts w4 n c"
    using save_sent_items_frame(3) [OF sv] fw2(2) Cons.prems(5) by simp
  have d: "u \<in> dom ?s1" by simp
  have "hist_of (fst (snd (deliver_loop l cfg u ft rest ?s1 w4))) u = hist_of ?s1 u @ entry_ids rest"
    by (rule Cons.IH [OF Cons.prems(1) fw4 rest d bw4])
  with eid ssa r sv q h show ?case by (simp add: hist_of_def)
qed

lemma cycle_post_same:
  "journal w' = journal w \<Longrightarrow> history_file w' = history_file w \<Longrightarrow> cycle_post s w s w' []"
  by (simp add: cycle_post_def)

lemma cycle_post_setdefault:
  "journal w' = journal w \<Longrightarrow> history_file w' = history_file w \<Longrightarrow>
   cycle_post s w (setdefault s u) w' []"
  by (simp add: cycle_post_def hist_of_setdefault dom_setdefault)

lemma cycle_post_trans:
  assumes a: "cycle_post s w s1 w1 js1" and b: "cycle_post s1 w1 s2 w2 js2"
  shows "cycle_post s w s2 w2 (js1 @ js2)"
proof -
  have ext: "\<And>v. hist_of s1 v = hist_of s v @ delivered_ids v js1"
    using a by (simp add: cycle_post_def)
  have j: "journal w2 = journal w @ js1 @ js2"
    using a b by (simp add: cycle_post_def)
  have n: "\<forall>j\<in>set (js1 @ js2). is_new (hist_of s (fst j)) (journal_entry j)"
  proof
    fix j assume "j \<in> set (js1 @ js2)"
    then consider "j \<in> set js1" | "j \<in> set js2" by auto
    then show "is_new (hist_of s (fst j)) (journal_entry j)"
    proof cases
      case 1
      with a show ?thesis by (simp add: cycle_post_def)
    next
      case 2
      with b have "is_new (hist_of s1 (fst j)) (journal_entry j)" by (simp add: cycle_post_def)
      then show ?thesis by (rule is_new_mono) (simp add: ext)
    qed
  qed
  have h: "\<forall>v. hist_of s2 v = hist_of s v @ delivered_ids v (js1 @ js2)"
    using a b by (simp add: cycle_post_def delivered_ids_append)
  have "dom s \<subseteq> dom s1" using a by (simp add: cycle_post_def)
  moreover have "dom s1 \<subseteq> dom s2" using b by (simp add: cycle_post_def)
  ultimately have d: "dom s \<subseteq> dom s2" by (rule subset_trans)
  have f1: "history_file w1 = history_file w \<or>
      (\<exists>t. history_file w1 = stored t \<and> (\<forall>v. prefix (hist_of s v) (hist_of t v)))"
    using a by (simp add: cycle_post_def)
  have f2: "history_file w2 = history_file w1 \<or>
      (\<exists>t. history_file w2 = stored t \<and> (\<forall>v. prefix (hist_of s1 v) (hist_of t v)))"
    using b by (simp add: cycle_post_def)
  have f: "history_file w2 = history_file w \<or>
      (\<exists>t. history_file w2 = stored t \<and> (\<forall>v. prefix (hist_of s v) (hist_of t v)))"
  proof (rule disjE [OF f2])
    assume "history_file w2 = history_file w1"
    with f1 show ?thesis by simp
  next
    assume "\<exists>t. history_file w2 = stored t \<and> (\<forall>v. prefix (hist_of s1 v) (hist_of t v))"
    then obtain t where t: "history_file w2 = stored t" "\<And>v. prefix (hist_of s1 v) (hist_of t v)"
      by blast
    have "\<forall>v. prefix (hist_of s v) (hist_of t v)"
    proof
      fix v
      have "prefix (hist_of s v) (hist_of s1 v)" by (simp add: ext)
      then show "prefix (hist_of s v) (hist_of t v)" using t(2) [of v] by (rule prefix_order.trans)
    qed
    with t(1) show ?thesis by blast
  qed
  have u: "(\<forall>v. delivered_ids v (js1 @ js2) = []) \<longrightarrow> history_file w2 = history_file w"
    using a b by (simp add: cycle_post_def delivered_ids_append)
  show ?thesis
    unfolding cycle_post_def using j n h d f u by blast
qed

lemma cycle_post_since: "cycle_post s w s' w' js \<Longrightarrow> journal_since w w' = js"
  by (simp add: cycle_post_def journal_since_def)

lemma loop_post_cycle_post:
  assumes post: "loop_post u es (setdefault s u) (hist_of s u) w1 x s' w' js"
    and new: "\<forall>e\<in>set es. is_new (hist_of s u) e"
    and w1: "journal w1 = journal w" "history_file w1 = history_file w"
  shows "cycle_post s w s' w' js"
proof -
  let ?s1 = "setdefault s u" and ?h = "hist_of s u"
  from post have j: "journal w' = journal w1 @ js"
    and m: "map journal_entry js = take (length js) es"
    and fu: "\<forall>j\<in>set js. fst j = u"
    and s': "s' = ?s1(u \<mapsto> ?h @ delivered_ids u js)"
    and hf: "history_file w' = history_file w1 \<or>
      (\<exists>d. d \<noteq> [] \<and> prefix d (delivered_ids u js) \<and>
           history_file w' = stored (?s1(u \<mapsto> ?h @ d)))"
    by (simp_all add: loop_post_def)
  have n: "\<forall>j\<in>set js. is_new (hist_of s (fst j)) (journal_entry j)"
  proof
    fix j assume jin: "j \<in> set js"
    then have "journal_entry j \<in> set (map journal_entry js)" by simp
    then have "journal_entry j \<in> set es" using m by (metis in_set_takeD)
    then show "is_new (hist_of s (fst j)) (journal_entry j)" using new fu jin by simp
  qed
  have h: "\<forall>v. hist_of s' v = hist_of s v @ delivered_ids v js"
  proof
    fix v
    show "hist_of s' v = hist_of s v @ delivered_ids v js"
    proof (cases "v = u")
      case True
      then show ?thesis using s' by (simp add: hist_of_upd)
    next
      case False
      have "delivered_ids v js = []" by (rule delivered_ids_other [OF fu False])
      then show ?thesis using s' False by (simp add: hist_of_upd hist_of_setdefault)
    qed
  qed
  have d: "dom s \<subseteq> dom s'" using s' dom_setdefault [of s u] by auto
  have f: "history_file w' = history_file w \<or>
      (\<exists>t. history_file w' = stored t \<and> (\<forall>v. prefix (hist_of s v) (hist_of t v)))"
  proof (rule disjE [OF hf])
    assume "history_file w' = history_file w1"
    then show ?thesis using w1 by simp
  next
    assume "\<exists>d. d \<noteq> [] \<and> prefix d (delivered_ids u js) \<and>
           history_file w' = stored (?s1(u \<mapsto> ?h @ d))"
    then obtain d where "history_file w' = stored (?s1(u \<mapsto> ?h @ d))" by blast
    moreover have "\<forall>v. prefix (hist_of s v) (hist_of (?s1(u \<mapsto> ?h @ d)) v)"
      by (simp add: hist_of_upd hist_of_setdefault)
    ultimately show ?thesis by blast
  qed
  have e: "(\<forall>v. delivered_ids v js = []) \<longrightarrow> history_file w' = history_file w"
    using hf w1 by auto
  show ?thesis unfolding cycle_post_def using j w1 n h d f e by simp
qed

lemma try_feed_unfold:
  "try_feed l cfg u s w =
     (case feedparser_parse w (clock w) u of
        Inl e \<Rightarrow> (Some e, s, w\<lparr>clock := Suc (clock w)\<rparr>)
      | Inr fd \<Rightarrow>
          if f_entries fd = [] then
            (None, s, logger WARNING ''No entries found in feed'' (w\<lparr>clock := Suc (clock w)\<rparr>))
          else if \<forall>e\<in>set (f_entries fd). entry_id e \<noteq> Inl AttributeError then
            deliver_loop l cfg u (case f_title fd of Some t \<Rightarrow> t | None \<Rightarrow> u)
              (rev (filter (is_new (hist_of s u)) (f_entries fd))) (setdefault s u)
              (w\<lparr>clock := Suc (clock w)\<rparr>)
          else (Some AttributeError, setdefault s u, w\<lparr>clock := Suc (clock w)\<rparr>))"
  by (simp add: try_feed_def Let_def identify_new_result hist_of_setdefault split: sum.splits)

lemma try_feed_post:
  assumes "try_feed l cfg u s w = (x, s', w')"
  shows "\<exists>js. cycle_post s w s' w' js"
proof (cases "feedparser_parse w (clock w) u")
  case (Inl e)
  with assms have "s' = s" "w' = w\<lparr>clock := Suc (clock w)\<rparr>"
    by (simp_all add: try_feed_unfold)
  then have "cycle_post s w s' w' []" by (simp add: cycle_post_same)
  then show ?thesis ..
next
  case (Inr fd)
  let ?w1 = "w\<lparr>clock := Suc (clock w)\<rparr>"
  let ?new = "filter (is_new (hist_of s u)) (f_entries fd)"
  consider (empty) "f_entries fd = []"
    | (noid) "f_entries fd \<noteq> []" "\<not> (\<forall>e\<in>set (f_entries fd). entry_id e \<noteq> Inl AttributeError)"
    | (run) "f_entries fd \<noteq> []" "\<forall>e\<in>set (f_entries fd). entry_id e \<noteq> Inl AttributeError"
    by blast
  then show ?thesis
  proof cases
    case empty
    with assms Inr have "s' = s" "w' = logger WARNING ''No entries found in feed'' ?w1"
      by (simp_all add: try_feed_unfold)
    then have "cycle_post s w s' w' []" by (simp add: cycle_post_same logger_def)
    then show ?thesis ..
  next
    case noid
    with assms Inr have "s' = setdefault s u" "w' = ?w1"
      by (simp_all add: try_feed_unfold)
    then have "cycle_post s w s' w' []" by (simp add: cycle_post_setdefault)
    then show ?thesis ..
  next
    case run
    with assms Inr have loop: "deliver_loop l cfg u (case f_title fd of Some t \<Rightarrow> t | None \<Rightarrow> u)
              (rev ?new) (setdefault s u) ?w1 = (x, s', w')"
      by (simp add: try_feed_unfold)
    from deliver_loop_store [OF loop setdefault_at] obtain js where
      post: "loop_post u (rev ?new) (setdefault s u) (hist_of s u) ?w1 x s' w' js" ..
    have "cycle_post s w s' w' js"
      by (rule loop_post_cycle_post [OF post]) simp_all
    then show ?thesis ..
  qed
qed

lemma process_feed_post:
  assumes "process_feed l cfg u s w = (s', w')"
  shows "\<exists>js. cycle_post s w s' w' js"
proof (cases "strip u = []")
  case True
  with assms have "s' = s" "w' = w" by (simp_all add: process_feed_def)
  then have "cycle_post s w s' w' []" by (simp add: cycle_post_same)
  then show ?thesis ..
next
  case False
  let ?w1 = "logger INFO ''Checking feed'' w"
  obtain x s1 w2 where t: "try_feed l cfg u s ?w1 = (x, s1, w2)"
    by (metis prod_cases3)
  from try_feed_post [OF t] obtain js where post: "cycle_post s ?w1 s1 w2 js" ..
  have s': "s' = s1" using assms False t by (simp add: process_feed_def split: option.splits)
  have "journal w' = journal w2 \<and> history_file w' = history_file w2"
    using assms False t by (auto simp: process_feed_def logger_def split: option.splits)
  with post s' have "cycle_post s w s' w' js"
    by (simp add: cycle_post_def logger_def)
  then show ?thesis ..
qed

lemma feeds_loop_post:
  assumes "feeds_loop l cfg fs s w = (s', w')"
  shows "\<exists>js. cycle_post s w s' w' js"
  using assms
proof (induction fs arbitrary: s w)
  case Nil
  then have "cycle_post s w s' w' []" by (simp add: cycle_post_same)
  then show ?case ..
next
  case (Cons u rest)
  obtain s1 w1 where p: "process_feed l cfg u s w = (s1, w1)" by fastforce
  with Cons.prems have r: "feeds_loop l cfg rest s1 w1 = (s', w')" by simp
  from process_feed_post [OF p] obtain js1 where a: "cycle_post s w s1 w1 js1" ..
  from Cons.IH [OF r] obtain js2 where b: "cycle_post s1 w1 s' w' js2" ..
  from cycle_post_trans [OF a b] show ?case ..
qed

lemma check_feeds_post:
  assumes "check_feeds l cfg w = (Inr s', w')"
  shows "\<exists>s0 js. load_sent_items w = Inr s0 \<and> cycle_post s0 w s' w' js"
proof -
  from assms obtain s0 where s0: "load_sent_items w = Inr s0"
    by (cases "load_sent_items w") (simp_all add: check_feeds_def)
  obtain r w1 where lf: "load_feeds w = (r, w1)" by fastforce
  with assms s0 obtain fs where fs: "r = Inr fs"
    by (cases r) (simp_all add: check_feeds_def)
  note fr = load_feeds_frame [OF lf]
  show ?thesis
  proof (cases "fs = []")
    case True
    with assms s0 lf fs have "s' = s0" "w' = logger WARNING ''No feeds to check'' w1"
      by (simp_all add: check_feeds_def)
    with fr have "cycle_post s0 w s' w' []" by (simp add: cycle_post_same logger_def)
    with s0 show ?thesis by blast
  next
    case False
    with assms s0 lf fs have "feeds_loop l cfg fs s0 w1 = (s', w')"
      by (simp add: check_feeds_def split: prod.splits)
    from feeds_loop_post [OF this] obtain js where "cycle_post s0 w1 s' w' js" ..
    with fr have "cycle_post s0 w s' w' js" by (simp add: cycle_post_def)
    with s0 show ?thesis by blast
  qed
qed

lemma check_feeds_journal:
  assumes "load_sent_items w = Inr s0" and "check_feeds l cfg w = (r, w')"
  shows "\<exists>s'. cycle_post s0 w s' w' (journal_since w w') \<and> (r = Inr s' \<or> (\<exists>e. r = Inl e))"
proof (cases r)
  case (Inr s')
  with assms(2) check_feeds_post [of l cfg w s' w'] assms(1)
  obtain js where c: "cycle_post s0 w s' w' js" by auto
  with cycle_post_since [OF c] Inr show ?thesis by auto
next
  case (Inl e)
  obtain q w1 where lf: "load_feeds w = (q, w1)" by fastforce
  with assms Inl have "w' = w1"
    by (auto simp: check_feeds_def split: sum.splits if_splits prod.splits)
  with load_feeds_frame [OF lf] have "cycle_post s0 w s0 w' []"
    by (simp add: cycle_post_same)
  with cycle_post_since [OF this] Inl show ?thesis by auto
qed

lemma run_cycles_journal:
  assumes "load_sent_items w = Inr s0" and "run_cycles l cfg n w = (x, w')"
  shows "\<exists>js. journal w' = journal w @ js \<and>
              (\<forall>j\<in>set js. is_new (hist_of s0 (fst j)) (journal_entry j))"
  using assms
proof (induction n arbitrary: w s0)
  case 0
  then show ?case by simp
next
  case (Suc n)
  obtain r w1 where c: "check_feeds l cfg w = (r, w1)" by fastforce
  from check_feeds_journal [OF Suc.prems(1) c] obtain s' where
    post: "cycle_post s0 w s' w1 (journal_since w w1)" and r: "r = Inr s' \<or> (\<exists>e. r = Inl e)"
    by blast
  let ?js1 = "journal_since w w1"
  have j1: "journal w1 = journal w @ ?js1"
    and n1: "\<forall>j\<in>set ?js1. is_new (hist_of s0 (fst j)) (journal_entry j)"
    and ext: "\<And>v. hist_of s' v = hist_of s0 v @ delivered_ids v ?js1"
    using post by (simp_all add: cycle_post_def)
  show ?case
  proof (cases r)
    case (Inl e)
    with Suc.prems(2) c have "w' = w1" by simp
    with j1 n1 show ?thesis by blast
  next
    case (Inr t)
    with r have t: "t = s'" by simp
    obtain q w2 where sv: "save_sent_items s' w1 = (q, w2)" by fastforce
    show ?thesis
    proof (cases q)
      case (Inl e)
      with Suc.prems(2) c Inr t sv have "w' = w2" by simp
      moreover have "journal w2 = journal w1" using save_sent_items_frame(1) [OF sv] .
      ultimately show ?thesis using j1 n1 by auto
    next
      case qr: (Inr a)
      let ?w3 = "logger INFO ''Next check'' w2"
      from Suc.prems(2) c Inr t sv qr have run: "run_cycles l cfg n ?w3 = (x, w')" by simp
      have "history_file w2 = stored s'" using save_sent_items_frame(5) [OF sv] qr by simp
      then have ld: "load_sent_items ?w3 = Inr s'"
        by (simp add: load_sent_items_def open_read_def json_load_def stored_def logger_def)
      from Suc.IH [OF ld run] obtain js2 where
        j2: "journal w' = journal ?w3 @ js2"
        and n2: "\<forall>j\<in>set js2. is_new (hist_of s' (fst j)) (journal_entry j)"
        by blast
      have "journal ?w3 = journal w1"
        using save_sent_items_frame(1) [OF sv] by (simp add: logger_def)
      with j1 j2 have j: "journal w' = journal w @ (?js1 @ js2)" by simp
      have "\<forall>j\<in>set js2. is_new (hist_of s0 (fst j)) (journal_entry j)"
      proof
        fix j assume "j \<in> set js2"
        with n2 have "is_new (hist_of s' (fst j)) (journal_entry j)" by simp
        then show "is_new (hist_of s0 (fst j)) (journal_entry j)"
          by (rule is_new_mono) (simp add: ext)
      qed
      with n1 have "\<forall>j\<in>set (?js1 @ js2). is_new (hist_of s0 (fst j)) (journal_entry j)"
        by auto
      with j show ?thesis by blast
    qed
  qed
qed

lemma try_feed_order:
  assumes t: "try_feed l cfg u s w = (x, s', w')"
    and p: "feedparser_parse w (clock w) u = Inr fd"
  shows "prefix (map journal_entry (journal_since w w'))
           (rev (filter (is_new (hist_of s u)) (f_entries fd))) \<and>
         (TELEGRAM_TOPIC_ID cfg \<noteq> EnvInvalid \<and> history_file w \<noteq> Inaccessible \<and>
          (\<forall>e\<in>set (f_entries fd). entry_id e \<noteq> Inl AttributeError) \<longrightarrow>
          map journal_entry (journal_since w w') =
            rev (filter (is_new (hist_of s u)) (f_entries fd)))"
proof -
  let ?w1 = "w\<lparr>clock := Suc (clock w)\<rparr>"
  let ?new = "filter (is_new (hist_of s u)) (f_entries fd)"
  consider (empty) "f_entries fd = []"
    | (noid) "f_entries fd \<noteq> []" "\<not> (\<forall>e\<in>set (f_entries fd). entry_id e \<noteq> Inl AttributeError)"
    | (run) "f_entries fd \<noteq> []" "\<forall>e\<in>set (f_entries fd). entry_id e \<noteq> Inl AttributeError"
    by blast
  then show ?thesis
  proof cases
    case empty
    with t p have "w' = logger WARNING ''No entries found in feed'' ?w1"
      by (simp add: try_feed_unfold)
    then show ?thesis using empty by (simp add: journal_since_def logger_def)
  next
    case noid
    with t p have "w' = ?w1" by (simp add: try_feed_unfold)
    then have "journal_since w w' = []" by (simp add: journal_since_def)
    then show ?thesis using noid by auto
  next
    case run
    let ?ft = "case f_title fd of Some t \<Rightarrow> t | None \<Rightarrow> u"
    from run t p have loop: "deliver_loop l cfg u ?ft (rev ?new) (setdefault s u) ?w1 = (x, s', w')"
      by (simp add: try_feed_unfold)
    from deliver_loop_store [OF loop setdefault_at] obtain js where
      post: "loop_post u (rev ?new) (setdefault s u) (hist_of s u) ?w1 x s' w' js" ..
    then have js: "journal_since w w' = js"
      and m: "map journal_entry js = take (length js) (rev ?new)"
      and full: "x = None \<longrightarrow> length js = length (rev ?new)"
      by (simp_all add: loop_post_def journal_since_def)
    have pre: "prefix (map journal_entry js) (rev ?new)"
      unfolding m by (rule take_is_prefix)
    have "map journal_entry js = rev ?new"
      if ok: "TELEGRAM_TOPIC_ID cfg \<noteq> EnvInvalid" "history_file w \<noteq> Inaccessible"
    proof -
      have "\<forall>e\<in>set (rev ?new). entry_id e \<noteq> Inl AttributeError" using run(2) by simp
      moreover have "history_file ?w1 \<noteq> Inaccessible" using ok(2) by simp
      moreover have "u \<in> dom (setdefault s u)" using setdefault_at [of s u] by blast
      ultimately have "fst (deliver_loop l cfg u ?ft (rev ?new) (setdefault s u) ?w1) = None"
        using ok(1) by (intro deliver_loop_completes)
      with loop have "x = None" by simp
      with full m show ?thesis by simp
    qed
    with pre js show ?thesis by simp
  qed
qed

lemma strip_example_url: "strip example_url = example_url"
  by (simp add: strip_def example_url_def asc_def isspace_def)

lemma example_url_nonempty: "example_url \<noteq> []"
  by (simp add: example_url_def asc_def)

lemma feed_lines_example_url: "feed_lines example_url = [example_url]"
  by (simp add: feed_lines_def readlines_def strip_def startswith_def example_url_def asc_def
      isspace_def)

lemma entry_id_numbered: "entry_id (numbered_entry n) = Inr [n]"
  by (simp add: entry_id_def numbered_entry_def blank_entry_def)

lemma is_new_numbered: "is_new h (numbered_entry n) \<longleftrightarrow> [n] \<notin> set h"
  by (simp add: is_new_def entry_id_numbered)

lemma entry_ids_numbered: "entry_ids (map numbered_entry ns) = map (\<lambda>n. [n]) ns"
  by (induction ns) (simp_all add: entry_id_numbered)

lemma feed_world_fields:
  "feeds_file (feed_world ns) = Content example_url"
  "history_file (feed_world ns) = Absent"
  "feedparser_parse (feed_world ns) = (\<lambda>_ _. Inr (numbered_feed ns))"
  "bot_accepts (feed_world ns) = (\<lambda>_ _. True)"
  "journal (feed_world ns) = []"
  "clock (feed_world ns) = 0"
  by (simp_all add: feed_world_def quiet_world_def)

lemma plain_config_topic: "TELEGRAM_TOPIC_ID plain_config \<noteq> EnvInvalid"
  by (simp add: plain_config_def default_config_def)

lemma numbered_feed_ids: "\<forall>e\<in>set (f_entries (numbered_feed ns)). entry_id e \<noteq> Inl AttributeError"
  by (simp add: numbered_feed_def entry_id_numbered)

lemma process_feed_all_sent:
  assumes "strip u \<noteq> []" and "feedparser_parse w (clock w) u = Inr fd"
    and "f_entries fd \<noteq> []" and "TELEGRAM_TOPIC_ID cfg \<noteq> EnvInvalid"
    and "history_file w \<noteq> Inaccessible"
    and "\<forall>e\<in>set (f_entries fd). entry_id e \<noteq> Inl AttributeError"
    and "\<forall>n c. bot_accepts w n c"
  shows "hist_of (fst (process_feed l cfg u s w)) u =
           hist_of s u @ entry_ids (rev (filter (is_new (hist_of s u)) (f_entries fd)))"
proof -
  let ?w1 = "logger INFO ''Checking feed'' w"
  let ?w2 = "?w1\<lparr>clock := Suc (clock ?w1)\<rparr>"
  let ?new = "filter (is_new (hist_of s u)) (f_entries fd)"
  let ?ft = "case f_title fd of Some t \<Rightarrow> t | None \<Rightarrow> u"
  let ?loop = "deliver_loop l cfg u ?ft (rev ?new) (setdefault s u) ?w2"
  have p: "feedparser_parse ?w1 (clock ?w1) u = Inr fd" using assms(2) by (simp add: logger_def)
  have t: "try_feed l cfg u s ?w1 = ?loop"
    using p assms(3,6) by (simp add: try_feed_unfold)
  have "fst (process_feed l cfg u s w) = fst (snd ?loop)"
    using assms(1) t by (simp add: process_feed_def split: prod.splits option.splits)
  moreover have "hist_of (fst (snd ?loop)) u = hist_of (setdefault s u) u @ entry_ids (rev ?new)"
  proof (rule deliver_loop_all_sent [OF assms(4)])
    show "history_file ?w2 \<noteq> Inaccessible" using assms(5) by (simp add: logger_def)
    show "\<forall>e\<in>set (rev ?new). entry_id e \<noteq> Inl AttributeError" using assms(6) by simp
    show "u \<in> dom (setdefault s u)" using setdefault_at [of s u] by blast
    show "\<forall>n c. bot_accepts ?w2 n c" using assms(7) by (simp add: logger_def)
  qed
  ultimately show ?thesis by (simp add: hist_of_setdefault)
qed

lemma check_feeds_single:
  assumes "feeds_file w = Content example_url" and "load_sent_items w = Inr s0"
  shows "check_feeds l cfg w =
           (Inr (fst (process_feed l cfg example_url s0 (logger INFO ''Loaded feeds'' w))),
            snd (process_feed l cfg example_url s0 (logger INFO ''Loaded feeds'' w)))"
  using assms
  by (simp add: check_feeds_def load_feeds_def open_read_def feed_lines_example_url
      split: prod.splits)

lemma filter_new_numbered:
  "filter (is_new []) (map numbered_entry ns) = map numbered_entry ns"
  by (induction ns) (simp_all add: is_new_numbered)

lemma feed_world_history:
  assumes "ns \<noteq> []"
  shows "returned_history (fst (check_feeds plain_lib plain_config (feed_world ns))) example_url =
           map (\<lambda>n. [n]) (rev ns)"
proof -
  let ?w = "feed_world ns"
  let ?w1 = "logger INFO ''Loaded feeds'' ?w"
  have ld: "load_sent_items ?w = Inr Map.empty"
    by (simp add: load_sent_items_def open_read_def feed_world_fields)
  have c: "check_feeds plain_lib plain_config ?w =
      (Inr (fst (process_feed plain_lib plain_config example_url Map.empty ?w1)),
       snd (process_feed plain_lib plain_config example_url Map.empty ?w1))"
    by (rule check_feeds_single [OF feed_world_fields(1) ld])
  have "hist_of (fst (process_feed plain_lib plain_config example_url Map.empty ?w1)) example_url =
      hist_of Map.empty example_url @
      entry_ids (rev (filter (is_new (hist_of Map.empty example_url)) (f_entries (numbered_feed ns))))"
  proof (rule process_feed_all_sent)
    show "strip example_url \<noteq> []" by (simp add: strip_example_url example_url_nonempty)
    show "feedparser_parse ?w1 (clock ?w1) example_url = Inr (numbered_feed ns)"
      by (simp add: logger_def feed_world_fields)
    show "f_entries (numbered_feed ns) \<noteq> []" using assms by (simp add: numbered_feed_def)
    show "TELEGRAM_TOPIC_ID plain_config \<noteq> EnvInvalid" by (rule plain_config_topic)
    show "history_file ?w1 \<noteq> Inaccessible" by (simp add: logger_def feed_world_fields)
    show "\<forall>e\<in>set (f_entries (numbered_feed ns)). entry_id e \<noteq> Inl AttributeError"
      by (rule numbered_feed_ids)
    show "\<forall>n c. bot_accepts ?w1 n c" by (simp add: logger_def feed_world_fields)
  qed
  moreover have "hist_of Map.empty example_url = []" by (simp add: hist_of_def)
  moreover have "entry_ids (rev (map numbered_entry ns)) = map (\<lambda>n. [n]) (rev ns)"
    using entry_ids_numbered [of "rev ns"] by (simp add: rev_map)
  ultimately have "hist_of (fst (process_feed plain_lib plain_config example_url Map.empty ?w1))
      example_url = map (\<lambda>n. [n]) (rev ns)"
    by (simp add: numbered_feed_def filter_new_numbered)
  with c show ?thesis by (simp add: returned_history_def)
qed

lemma seen_world_fields:
  "feeds_file seen_world = Content example_url"
  "history_file seen_world = Content (Json seen_store)"
  "feedparser_parse seen_world = (\<lambda>_ _. Inr (numbered_feed [3, 2, 1]))"
  "bot_accepts seen_world = (\<lambda>_ _. True)"
  "journal seen_world = []"
  by (simp_all add: seen_world_def feed_world_def quiet_world_def)

lemma load_seen_world: "load_sent_items seen_world = Inr seen_store"
  by (simp add: load_sent_items_def open_read_def json_load_def seen_world_fields)

lemma load_feeds_seen_world: "fst (load_feeds seen_world) = Inr [example_url]"
  by (simp add: load_feeds_def open_read_def seen_world_fields feed_lines_example_url)

lemma seen_store_at: "seen_store example_url = Some [[2]]"
  by (simp add: seen_store_def)

lemma seen_world_new:
  "rev (filter (is_new (hist_of seen_store example_url)) (f_entries (numbered_feed [3, 2, 1]))) =
     [numbered_entry 1, numbered_entry 3]"
  by (simp add: numbered_feed_def is_new_numbered hist_of_def seen_store_def)

lemma seen_world_cycle:
  "check_feeds plain_lib plain_config seen_world =
     (Inr (fst (process_feed plain_lib plain_config example_url seen_store
                  (logger INFO ''Loaded feeds'' seen_world))),
      snd (process_feed plain_lib plain_config example_url seen_store
             (logger INFO ''Loaded feeds'' seen_world)))"
  by (rule check_feeds_single [OF seen_world_fields(1) load_seen_world])

lemma seen_world_history:
  "returned_history (fst (check_feeds plain_lib plain_config seen_world)) example_url =
     [[2], [1], [3]]"
proof -
  let ?w1 = "logger INFO ''Loaded feeds'' seen_world"
  have "hist_of (fst (process_feed plain_lib plain_config example_url seen_store ?w1)) example_url =
      hist_of seen_store example_url @
      entry_ids (rev (filter (is_new (hist_of seen_store example_url))
                        (f_entries (numbered_feed [3, 2, 1]))))"
  proof (rule process_feed_all_sent)
    show "strip example_url \<noteq> []" by (simp add: strip_example_url example_url_nonempty)
    show "feedparser_parse ?w1 (clock ?w1) example_url = Inr (numbered_feed [3, 2, 1])"
      by (simp add: logger_def seen_world_fields)
    show "f_entries (numbered_feed [3, 2, 1]) \<noteq> []" by (simp add: numbered_feed_def)
    show "TELEGRAM_TOPIC_ID plain_config \<noteq> EnvInvalid" by (rule plain_config_topic)
    show "history_file ?w1 \<noteq> Inaccessible" by (simp add: logger_def seen_world_fields)
    show "\<forall>e\<in>set (f_entries (numbered_feed [3, 2, 1])). entry_id e \<noteq> Inl AttributeError"
      by (rule numbered_feed_ids)
    show "\<forall>n c. bot_accepts ?w1 n c" by (simp add: logger_def seen_world_fields)
  qed
  then have "hist_of (fst (process_feed plain_lib plain_config example_url seen_store ?w1))
      example_url = hist_of seen_store example_url @ entry_ids [numbered_entry 1, numbered_entry 3]"
    by (simp only: seen_world_new)
  moreover have "hist_of seen_store example_url = [[2]]"
    by (simp add: hist_of_def seen_store_def)
  moreover have "entry_ids [numbered_entry 1, numbered_entry 3] = [[1], [3]]"
    by (simp add: entry_id_numbered)
  ultimately have "hist_of (fst (process_feed plain_lib plain_config example_url seen_store ?w1))
      example_url = [[2], [1], [3]]"
    by simp
  then show ?thesis
    by (simp add: seen_world_cycle returned_history_def)
qed

lemma send_single_article_calls:
  assumes "send_single_article l cfg w (TELEGRAM_CHAT_ID cfg) entry ft (TELEGRAM_TOPIC_ID cfg) = (r, w')"
  shows "\<exists>b. outbox w' = outbox w @ b \<and> article_calls l cfg ft entry r b"
proof (cases "make_kwargs cfg (TELEGRAM_CHAT_ID cfg) (TELEGRAM_TOPIC_ID cfg)")
  case (Inl e)
  with assms have "outbox w' = outbox w @ [] \<and> article_calls l cfg ft entry r []"
    by (auto simp: send_single_article_def article_calls_def Let_def)
  then show ?thesis ..
next
  case (Inr kw)
  let ?t = "message_text l cfg entry ft"
  let ?u = "get_default (extract_image entry)"
  show ?thesis
  proof (cases "truthy (extract_image entry)")
    case False
    with assms Inr
    have "outbox w' = outbox w @ [(SendMessage ?t kw, r = Inr True)] \<and>
          article_calls l cfg ft entry r [(SendMessage ?t kw, r = Inr True)]"
      by (auto simp: send_single_article_def article_calls_def Let_def bot_call_def logger_def
          split: prod.splits bool.splits)
    then show ?thesis ..
  next
    case True
    show ?thesis
    proof (cases "bot_accepts w (clock w) (SendPhoto ?u ?t kw)")
      case ok: True
      with assms Inr True
      have "outbox w' = outbox w @ [(SendPhoto ?u ?t kw, True)] \<and>
            article_calls l cfg ft entry r [(SendPhoto ?u ?t kw, True)]"
        by (auto simp: send_single_article_def article_calls_def Let_def bot_call_def logger_def
            split: prod.splits bool.splits)
      then show ?thesis ..
    next
      case no: False
      with assms Inr True
      have "outbox w' = outbox w @ [(SendPhoto ?u ?t kw, False), (SendMessage ?t kw, r = Inr True)] \<and>
            article_calls l cfg ft entry r
              [(SendPhoto ?u ?t kw, False), (SendMessage ?t kw, r = Inr True)]"
        by (auto simp: send_single_article_def article_calls_def Let_def bot_call_def logger_def
            split: prod.splits bool.splits)
      then show ?thesis ..
    qed
  qed
qed

lemma save_sent_items_outbox:
  assumes "save_sent_items s w = (r, w')"
  shows "outbox w' = outbox w"
  using assms
  by (auto simp: save_sent_items_def open_write_def stored_def split: sum.splits fstate.splits)

lemma calls_post_refl: "journal w' = journal w \<Longrightarrow> outbox w' = outbox w \<Longrightarrow> calls_post l cfg ft w w' [] []"
  by (simp add: calls_post_def)

lemma calls_post_step:
  assumes "journal w1 = journal w @ [j]" and "outbox w1 = outbox w @ b"
    and "record_calls l cfg ft j b" and "calls_post l cfg ft w1 w' js blocks"
  shows "calls_post l cfg ft w w' (j # js) (b # blocks)"
  using assms by (simp add: calls_post_def)

lemma deliver_loop_calls:
  assumes "deliver_loop l cfg u ft es s w = (x, s', w')"
  shows "\<exists>js blocks. calls_post l cfg ft w w' js blocks"
  using assms
proof (induction es arbitrary: s w)
  case Nil
  then have "calls_post l cfg ft w w' [] []" by (simp add: calls_post_def)
  then show ?case by blast
next
  case (Cons entry rest)
  show ?case
  proof (cases "entry_id entry")
    case (Inl e)
    with Cons.prems have "calls_post l cfg ft w w' [] []" by (simp add: calls_post_def)
    then show ?thesis by blast
  next
    case (Inr eid)
    let ?w1 = "logger INFO ''New entry found'' w"
    obtain r w2 where ssa: "send_single_article l cfg ?w1
        (TELEGRAM_CHAT_ID cfg) entry ft (TELEGRAM_TOPIC_ID cfg) = (r, w2)"
      by fastforce
    have jw2: "journal w2 = journal w"
      using send_single_article_frame(1) [OF ssa] by (simp add: logger_def)
    from send_single_article_calls [OF ssa] obtain b where
      ob: "outbox w2 = outbox w @ b" and ac: "article_calls l cfg ft entry r b"
      by (auto simp: logger_def)
    let ?j = "(u, entry, r)"
    let ?w3 = "w2\<lparr>journal := journal w2 @ [?j]\<rparr>"
    have rc: "record_calls l cfg ft ?j b" using ac by (simp add: record_calls_def)
    have j3: "journal ?w3 = journal w @ [?j]" using jw2 by simp
    have o3: "outbox ?w3 = outbox w @ b" using ob by simp
    have one: "calls_post l cfg ft w w' [?j] [b]" if "journal w' = journal ?w3" "outbox w' = outbox ?w3"
      using that j3 o3 rc by (simp add: calls_post_def)
    show ?thesis
    proof (cases r)
      case (Inl e)
      with Cons.prems Inr ssa have "w' = ?w3" by simp
      then have "calls_post l cfg ft w w' [?j] [b]" using one by simp
      then show ?thesis by blast
    next
      case rb: (Inr success)
      show ?thesis
      proof (cases success)
        case False
        with Cons.prems Inr ssa rb
        have run: "deliver_loop l cfg u ft rest s ?w3 = (x, s', w')" by simp
        from Cons.IH [OF run] obtain js blocks where
          "calls_post l cfg ft ?w3 w' js blocks" by blast
        from calls_post_step [OF j3 o3 rc this]
        show ?thesis by blast
      next
        case True
        show ?thesis
        proof (cases "s u")
          case None
          with Cons.prems Inr ssa rb True have "w' = ?w3" by simp
          then have "calls_post l cfg ft w w' [?j] [b]" using one by simp
          then show ?thesis by blast
        next
          case (Some h)
          let ?s1 = "s(u \<mapsto> h @ [eid])"
          obtain q w4 where sv: "save_sent_items ?s1 ?w3 = (q, w4)" by fastforce
          have jw4: "journal w4 = journal ?w3" using save_sent_items_frame(1) [OF sv] .
          have ow4: "outbox w4 = outbox ?w3" using save_sent_items_outbox [OF sv] .
          show ?thesis
          proof (cases q)
            case (Inl e)
            with Cons.prems Inr ssa rb True Some sv have "w' = w4" by simp
            then have "calls_post l cfg ft w w' [?j] [b]" using one jw4 ow4 by simp
            then show ?thesis by blast
          next
            case qr: (Inr a)
            with Cons.prems Inr ssa rb True Some sv
            have run: "deliver_loop l cfg u ft rest ?s1 w4 = (x, s', w')" by simp
            from Cons.IH [OF run] obtain js blocks where
              "calls_post l cfg ft w4 w' js blocks" by blast
            moreover have "journal w4 = journal w @ [?j]" using jw4 j3 by simp
            moreover have "outbox w4 = outbox w @ b" using ow4 o3 by simp
            ultimately have "calls_post l cfg ft w w' (?j # js) (b # blocks)"
              using rc by (simp add: calls_post_def)
            then show ?thesis by blast
          qed
        qed
      qed
    qed
  qed
qed

lemma try_feed_calls:
  assumes t: "try_feed l cfg u s w = (x, s', w')"
    and p: "feedparser_parse w (clock w) u = Inr fd"
  shows "\<exists>js blocks. calls_post l cfg (feed_title_of fd u) w w' js blocks"
proof -
  let ?w1 = "w\<lparr>clock := Suc (clock w)\<rparr>"
  let ?new = "filter (is_new (hist_of s u)) (f_entries fd)"
  consider (empty) "f_entries fd = []"
    | (noid) "f_entries fd \<noteq> []" "\<not> (\<forall>e\<in>set (f_entries fd). entry_id e \<noteq> Inl AttributeError)"
    | (run) "f_entries fd \<noteq> []" "\<forall>e\<in>set (f_entries fd). entry_id e \<noteq> Inl AttributeError"
    by blast
  then show ?thesis
  proof cases
    case empty
    with t p have "w' = logger WARNING ''No entries found in feed'' ?w1"
      by (simp add: try_feed_unfold)
    then have "calls_post l cfg (feed_title_of fd u) w w' [] []"
      by (simp add: calls_post_def logger_def)
    then show ?thesis by blast
  next
    case noid
    with t p have "w' = ?w1" by (simp add: try_feed_unfold)
    then have "calls_post l cfg (feed_title_of fd u) w w' [] []"
      by (simp add: calls_post_def)
    then show ?thesis by blast
  next
    case run
    from run t p have loop: "deliver_loop l cfg u (feed_title_of fd u) (rev ?new) (setdefault s u) ?w1 = (x, s', w')"
      by (simp add: try_feed_unfold feed_title_of_def)
    from deliver_loop_calls [OF loop] obtain js blocks where
      "calls_post l cfg (feed_title_of fd u) ?w1 w' js blocks" by blast
    then have "calls_post l cfg (feed_title_of fd u) w w' js blocks"
      by (simp add: calls_post_def)
    then show ?thesis by blast
  qed
qed

lemma calls_post_since:
  assumes "calls_post l cfg ft w w' js blocks"
  shows "outbox_since w w' = concat blocks \<and>
         list_all2 (record_calls l cfg ft) (journal_since w w') blocks"
  using assms by (simp add: calls_post_def outbox_since_def journal_since_def)

lemma process_feed_calls:
  assumes "process_feed l cfg u s w = (s', w')"
    and "feedparser_parse w (clock w) u = Inr fd"
  shows "\<exists>js blocks. calls_post l cfg (feed_title_of fd u) w w' js blocks"
proof (cases "strip u = []")
  case True
  with assms(1) have "w' = w" by (simp add: process_feed_def)
  then have "calls_post l cfg (feed_title_of fd u) w w' [] []" by (simp add: calls_post_def)
  then show ?thesis by blast
next
  case False
  let ?w1 = "logger INFO ''Checking feed'' w"
  obtain x s1 w2 where t: "try_feed l cfg u s ?w1 = (x, s1, w2)"
    by (metis prod_cases3)
  have p: "feedparser_parse ?w1 (clock ?w1) u = Inr fd"
    using assms(2) by (simp add: logger_def)
  have jo: "journal w' = journal w2" "outbox w' = outbox w2"
    using assms(1) False t by (auto simp: process_feed_def logger_def split: option.splits)
  from try_feed_calls [OF t p] obtain js blocks where
    "calls_post l cfg (feed_title_of fd u) ?w1 w2 js blocks" by blast
  then have "calls_post l cfg (feed_title_of fd u) w w' js blocks"
    using jo by (simp add: calls_post_def logger_def)
  then show ?thesis by blast
qed

lemma process_feed_order:
  assumes "process_feed l cfg u s w = (s', w')"
    and "feedparser_parse w (clock w) u = Inr fd"
  shows "prefix (map journal_entry (journal_since w w'))
           (rev (filter (is_new (hist_of s u)) (f_entries fd))) \<and>
         (strip u \<noteq> [] \<and> TELEGRAM_TOPIC_ID cfg \<noteq> EnvInvalid \<and>
          history_file w \<noteq> Inaccessible \<and>
          (\<forall>e\<in>set (f_entries fd). entry_id e \<noteq> Inl AttributeError) \<longrightarrow>
          map journal_entry (journal_since w w') =
            rev (filter (is_new (hist_of s u)) (f_entries fd)))"
proof (cases "strip u = []")
  case True
  with assms(1) have "w' = w" by (simp add: process_feed_def)
  then show ?thesis using True by (simp add: journal_since_def)
next
  case False
  let ?w1 = "logger INFO ''Checking feed'' w"
  obtain x s1 w2 where t: "try_feed l cfg u s ?w1 = (x, s1, w2)"
    by (metis prod_cases3)
  have p: "feedparser_parse ?w1 (clock ?w1) u = Inr fd"
    using assms(2) by (simp add: logger_def)
  have "journal w' = journal w2"
    using assms(1) False t by (auto simp: process_feed_def logger_def split: option.splits)
  then have "journal_since w w' = journal_since ?w1 w2"
    by (simp add: journal_since_def logger_def)
  moreover have "history_file ?w1 = history_file w" by (simp add: logger_def)
  ultimately show ?thesis using try_feed_order [OF t p] by simp
qed

lemma text_calls:
  assumes "make_kwargs cfg (TELEGRAM_CHAT_ID cfg) (TELEGRAM_TOPIC_ID cfg) = Inr kw"
    and "list_all2 (record_calls l cfg ft) js blocks"
    and "\<forall>e\<in>set (map journal_entry js). \<not> truthy (extract_image e)"
  shows "map fst (concat blocks) =
           map (\<lambda>e. SendMessage (message_text l cfg e ft) kw) (map journal_entry js)"
  using assms(2,3)
proof (induction rule: list_all2_induct)
  case Nil
  then show ?case by simp
next
  case (Cons j js b blocks)
  from Cons.hyps(1) Cons.prems assms(1)
  have "map fst b = [SendMessage (message_text l cfg (journal_entry j) ft) kw]"
    by (auto simp: record_calls_def article_calls_def Let_def)
  with Cons show ?case by simp
qed

lemma plain_config_kwargs:
  "make_kwargs plain_config (TELEGRAM_CHAT_ID plain_config) (TELEGRAM_TOPIC_ID plain_config) =
     Inr plain_kwargs"
  by (simp add: make_kwargs_def plain_config_def default_config_def plain_kwargs_def)

lemma numbered_entry_no_image: "\<not> truthy (extract_image (numbered_entry n))"
  by (simp add: truthy_def extract_image_def extract_enclosure_def extract_thumbnail_def
      extract_description_def extract_content_def raw_desc_def get_default_def Let_def
      numbered_entry_def blank_entry_def)

lemma invalid_topic_calls:
  assumes "TELEGRAM_TOPIC_ID cfg = EnvInvalid"
    and "list_all2 (record_calls l cfg ft) js blocks"
  shows "concat blocks = []"
  using assms(2)
proof (induction rule: list_all2_induct)
  case Nil
  then show ?case by simp
next
  case (Cons j js b blocks)
  from Cons.hyps(1) assms(1) have "b = []"
    by (simp add: record_calls_def article_calls_def make_kwargs_def)
  with Cons show ?case by simp
qed

lemma bad_topic_outbox:
  "outbox (snd (check_feeds plain_lib bad_topic_config (feed_world [3, 2, 1]))) = []"
proof -
  let ?w = "feed_world [3, 2, 1]"
  let ?w1 = "logger INFO ''Loaded feeds'' ?w"
  let ?p = "process_feed plain_lib bad_topic_config example_url Map.empty ?w1"
  have ld: "load_sent_items ?w = Inr Map.empty"
    by (simp add: load_sent_items_def open_read_def feed_world_fields)
  have a: "?p = (fst ?p, snd ?p)" by simp
  have b: "feedparser_parse ?w1 (clock ?w1) example_url = Inr (numbered_feed [3, 2, 1])"
    by (simp add: logger_def feed_world_fields)
  have t: "TELEGRAM_TOPIC_ID bad_topic_config = EnvInvalid" by (simp add: bad_topic_config_def)
  from process_feed_calls [OF a b] obtain js blocks where
    "calls_post plain_lib bad_topic_config (feed_title_of (numbered_feed [3, 2, 1]) example_url)
       ?w1 (snd ?p) js blocks" by blast
  then have "outbox (snd ?p) = outbox ?w1 @ concat blocks" and
    "list_all2 (record_calls plain_lib bad_topic_config
        (feed_title_of (numbered_feed [3, 2, 1]) example_url)) js blocks"
    by (simp_all add: calls_post_def)
  with invalid_topic_calls [OF t] have "outbox (snd ?p) = outbox ?w1" by simp
  moreover have "outbox ?w1 = []" by (simp add: logger_def feed_world_def quiet_world_def)
  moreover have "snd (check_feeds plain_lib bad_topic_config ?w) = snd ?p"
    using check_feeds_single [OF feed_world_fields(1) ld, of plain_lib bad_topic_config]
    by simp
  ultimately show ?thesis by simp
qed

lemma unnamed_world_outbox:
  "outbox (snd (check_feeds plain_lib plain_config unnamed_world)) = []"
proof -
  let ?w1 = "logger INFO ''Loaded feeds'' unnamed_world"
  let ?p = "process_feed plain_lib plain_config example_url Map.empty ?w1"
  have ff: "feeds_file unnamed_world = Content example_url" by (simp add: unnamed_world_def)
  have ld: "load_sent_items unnamed_world = Inr Map.empty"
    by (simp add: load_sent_items_def open_read_def unnamed_world_def quiet_world_def)
  have "entry_id blank_entry = Inl AttributeError" by (simp add: entry_id_def blank_entry_def)
  then have "outbox (snd ?p) = []"
    by (simp add: process_feed_def try_feed_unfold logger_def unnamed_world_def quiet_world_def
        strip_example_url example_url_nonempty)
  moreover have "snd (check_feeds plain_lib plain_config unnamed_world) = snd ?p"
    using check_feeds_single [OF ff ld, of plain_lib plain_config] by simp
  ultimately show ?thesis by simp
qed

lemma numbered_feed_new:
  "filter (is_new []) (f_entries (numbered_feed [3, 2, 1])) =
     [numbered_entry 3, numbered_entry 2, numbered_entry 1]"
  by (simp add: numbered_feed_def is_new_numbered)

lemma blank_entry_not_new: "\<not> is_new [] blank_entry"
  by (simp add: is_new_def entry_id_def blank_entry_def)

lemma unnamed_feed_new:
  "filter (is_new []) [numbered_entry 2, blank_entry] = [numbered_entry 2]"
  by (simp add: is_new_numbered blank_entry_not_new)

text \<open>
  C4. For one feed, the entries handed to \<open>send_single_article\<close> are, in this order,
  an initial segment of the reverse of the new entries of the feed, and the transport
  calls made are the calls of these entries, entry after entry. The entries handed over
  are all the new entries when no exception ends the loop early: the topic id is unset or
  an integer, the history file can be written, every entry has an id or a link.
\<close>

theorem delivery_order:
  assumes "process_feed l cfg u s w = (s', w')"
    and "feedparser_parse w (clock w) u = Inr fd"
  shows "prefix (map journal_entry (journal_since w w'))
           (rev (filter (is_new (hist_of s u)) (f_entries fd))) \<and>
         (\<exists>blocks. outbox_since w w' = concat blocks \<and>
            list_all2 (record_calls l cfg (feed_title_of fd u)) (journal_since w w') blocks) \<and>
         (strip u \<noteq> [] \<and> TELEGRAM_TOPIC_ID cfg \<noteq> EnvInvalid \<and>
          history_file w \<noteq> Inaccessible \<and>
          (\<forall>e\<in>set (f_entries fd). entry_id e \<noteq> Inl AttributeError) \<longrightarrow>
          map journal_entry (journal_since w w') =
            rev (filter (is_new (hist_of s u)) (f_entries fd)))"
proof -
  from process_feed_calls [OF assms] obtain js blocks where
    "calls_post l cfg (feed_title_of fd u) w w' js blocks" by blast
  from calls_post_since [OF this]
  have "\<exists>blocks. outbox_since w w' = concat blocks \<and>
            list_all2 (record_calls l cfg (feed_title_of fd u)) (journal_since w w') blocks"
    by blast
  then show ?thesis using process_feed_order [OF assms] by simp
qed

theorem delivery_order_witness:
  "load_sent_items (feed_world [3, 2, 1]) = Inr Map.empty \<and>
   fst (load_feeds (feed_world [3, 2, 1])) = Inr [example_url] \<and>
   feedparser_parse (feed_world [3, 2, 1]) 0 example_url = Inr (numbered_feed [3, 2, 1]) \<and>
   map journal_entry
     (journal_since (feed_world [3, 2, 1])
        (snd (check_feeds plain_lib plain_config (feed_world [3, 2, 1])))) =
     [numbered_entry 1, numbered_entry 2, numbered_entry 3] \<and>
   map fst
     (outbox_since (feed_world [3, 2, 1])
        (snd (check_feeds plain_lib plain_config (feed_world [3, 2, 1])))) =
     [numbered_message 1, numbered_message 2, numbered_message 3]"
proof -
  let ?w = "feed_world [3, 2, 1]"
  let ?w1 = "logger INFO ''Loaded feeds'' ?w"
  let ?p = "process_feed plain_lib plain_config example_url Map.empty ?w1"
  let ?ft = "feed_title_of (numbered_feed [3, 2, 1]) example_url"
  have ld: "load_sent_items ?w = Inr Map.empty"
    by (simp add: load_sent_items_def open_read_def feed_world_fields)
  have lf: "fst (load_feeds ?w) = Inr [example_url]"
    by (simp add: load_feeds_def open_read_def feed_world_fields feed_lines_example_url)
  have a: "?p = (fst ?p, snd ?p)" by simp
  have b: "feedparser_parse ?w1 (clock ?w1) example_url = Inr (numbered_feed [3, 2, 1])"
    by (simp add: logger_def feed_world_fields)
  have c: "strip example_url \<noteq> []" by (simp add: strip_example_url example_url_nonempty)
  have d: "history_file ?w1 \<noteq> Inaccessible" by (simp add: logger_def feed_world_fields)
  have e: "rev (filter (is_new (hist_of Map.empty example_url)) (f_entries (numbered_feed [3, 2, 1]))) =
      [numbered_entry 1, numbered_entry 2, numbered_entry 3]"
    by (simp add: numbered_feed_def is_new_numbered hist_of_def)
  have ft: "?ft = asc ''Feed''" by (simp add: feed_title_of_def numbered_feed_def)
  have js: "map journal_entry (journal_since ?w1 (snd ?p)) =
      [numbered_entry 1, numbered_entry 2, numbered_entry 3]"
    using delivery_order [OF a b] c d e plain_config_topic numbered_feed_ids [of "[3, 2, 1]"]
    by simp
  from delivery_order [OF a b] obtain blocks where
    ob: "outbox_since ?w1 (snd ?p) = concat blocks"
    and rc: "list_all2 (record_calls plain_lib plain_config ?ft) (journal_since ?w1 (snd ?p)) blocks"
    by blast
  have "\<forall>e\<in>set (map journal_entry (journal_since ?w1 (snd ?p))). \<not> truthy (extract_image e)"
    unfolding js by (simp add: numbered_entry_no_image)
  from text_calls [OF plain_config_kwargs rc this]
  have "map fst (outbox_since ?w1 (snd ?p)) =
      [numbered_message 1, numbered_message 2, numbered_message 3]"
    unfolding js ob ft by (simp add: numbered_message_def)
  moreover have "snd (check_feeds plain_lib plain_config ?w) = snd ?p"
    using check_feeds_single [OF feed_world_fields(1) ld, of plain_lib plain_config]
    by simp
  moreover have "journal_since ?w (snd ?p) = journal_since ?w1 (snd ?p)"
    by (simp add: journal_since_def logger_def)
  moreover have "outbox_since ?w (snd ?p) = outbox_since ?w1 (snd ?p)"
    by (simp add: outbox_since_def logger_def)
  ultimately show ?thesis using ld lf js by (simp add: feed_world_fields)
qed

text \<open>
  Without these conditions new entries stay undelivered: with a topic id that is no
  integer nothing is sent for the feed [E3, E2, E1], and a feed with one entry that has
  neither id nor link sends nothing for its other, new entry.
\<close>

theorem delivery_order_counterexample:
  "filter (is_new []) (f_entries (numbered_feed [3, 2, 1])) =
     [numbered_entry 3, numbered_entry 2, numbered_entry 1] \<and>
   outbox (snd (check_feeds plain_lib bad_topic_config (feed_world [3, 2, 1]))) = [] \<and>
   filter (is_new []) [numbered_entry 2, blank_entry] = [numbered_entry 2] \<and>
   outbox (snd (check_feeds plain_lib plain_config unnamed_world)) = []"
  using numbered_feed_new bad_topic_outbox unnamed_feed_new unnamed_world_outbox
  by (intro conjI)

text \<open>
  C2. With the store \<open>s0\<close> loaded at the start of a cycle: every entry handed to
  \<open>send_single_article\<close> in this cycle has an identifier that is not in \<open>s0\<close> for
  its feed; the store returned is \<open>s0\<close> extended, feed by feed, by exactly the
  identifiers sent with success; the history file is untouched when nothing was sent with
  success; and the first holds for any number of rounds of the polling loop.
\<close>

theorem deduplication:
  assumes "load_sent_items w = Inr s0"
  shows "(\<forall>r w'. check_feeds l cfg w = (r, w') \<longrightarrow>
            (\<forall>j\<in>set (journal_since w w'). is_new (hist_of s0 (fst j)) (journal_entry j)) \<and>
            (\<forall>s'. r = Inr s' \<longrightarrow>
               (\<forall>u. hist_of s' u = hist_of s0 u @ delivered_ids u (journal_since w w'))) \<and>
            ((\<forall>u. delivered_ids u (journal_since w w') = []) \<longrightarrow>
               history_file w' = history_file w)) \<and>
         (\<forall>n x w'. run_cycles l cfg n w = (x, w') \<longrightarrow>
            (\<forall>j\<in>set (journal_since w w'). is_new (hist_of s0 (fst j)) (journal_entry j)))"
proof -
  have one: "(\<forall>j\<in>set (journal_since w w'). is_new (hist_of s0 (fst j)) (journal_entry j)) \<and>
            (\<forall>s'. r = Inr s' \<longrightarrow>
               (\<forall>u. hist_of s' u = hist_of s0 u @ delivered_ids u (journal_since w w'))) \<and>
            ((\<forall>u. delivered_ids u (journal_since w w') = []) \<longrightarrow>
               history_file w' = history_file w)"
    if c: "check_feeds l cfg w = (r, w')" for r w'
  proof -
    from check_feeds_journal [OF assms c] obtain s' where
      post: "cycle_post s0 w s' w' (journal_since w w')" and r: "r = Inr s' \<or> (\<exists>e. r = Inl e)"
      by blast
    have a: "\<forall>j\<in>set (journal_since w w'). is_new (hist_of s0 (fst j)) (journal_entry j)"
      using post by (simp add: cycle_post_def)
    have b: "(\<forall>u. delivered_ids u (journal_since w w') = []) \<longrightarrow>
        history_file w' = history_file w"
      using post by (simp add: cycle_post_def)
    have "\<forall>u. hist_of t u = hist_of s0 u @ delivered_ids u (journal_since w w')"
      if "r = Inr t" for t
    proof -
      from that r have "t = s'" by auto
      then show ?thesis using post by (simp add: cycle_post_def)
    qed
    with a b show ?thesis by blast
  qed
  have many: "\<forall>j\<in>set (journal_since w w'). is_new (hist_of s0 (fst j)) (journal_entry j)"
    if run: "run_cycles l cfg n w = (x, w')" for n x w'
  proof -
    from run_cycles_journal [OF assms run] obtain js where
      "journal w' = journal w @ js" "\<forall>j\<in>set js. is_new (hist_of s0 (fst j)) (journal_entry j)"
      by blast
    then show ?thesis by (simp add: journal_since_def)
  qed
  from one many show ?thesis by blast
qed

theorem deduplication_witness:
  "load_sent_items seen_world = Inr seen_store \<and>
   returned_history (fst (check_feeds plain_lib plain_config seen_world)) example_url =
     [[2], [1], [3]] \<and>
   delivered_ids example_url
     (journal_since seen_world (snd (check_feeds plain_lib plain_config seen_world))) =
     [[1], [3]]"
proof -
  let ?c = "check_feeds plain_lib plain_config seen_world"
  have c: "?c = (Inr (fst (process_feed plain_lib plain_config example_url seen_store
                  (logger INFO ''Loaded feeds'' seen_world))), snd ?c)"
    using seen_world_cycle by simp
  from deduplication [OF load_seen_world, of plain_lib plain_config] c
  have "hist_of (fst (process_feed plain_lib plain_config example_url seen_store
                  (logger INFO ''Loaded feeds'' seen_world))) example_url =
        hist_of seen_store example_url @ delivered_ids example_url (journal_since seen_world (snd ?c))"
    by blast
  moreover have "returned_history (fst ?c) example_url =
      hist_of (fst (process_feed plain_lib plain_config example_url seen_store
                  (logger INFO ''Loaded feeds'' seen_world))) example_url"
    by (simp add: seen_world_cycle returned_history_def)
  moreover have "hist_of seen_store example_url = [[2]]"
    by (simp add: hist_of_def seen_store_def)
  ultimately show ?thesis using seen_world_history load_seen_world by simp
qed

text \<open>
  C10. Every history of the store loaded at the start of \<open>check_feeds\<close> is an initial
  segment of the history of the same feed in the store returned; and \<open>check_feeds\<close>
  returns a store whenever both loads succeed.
\<close>

theorem history_monotone:
  assumes "load_sent_items w = Inr s0"
  shows "(\<forall>s' w'. check_feeds l cfg w = (Inr s', w') \<longrightarrow>
            (\<forall>u h. s0 u = Some h \<longrightarrow> (\<exists>sfx. s' u = Some (h @ sfx)))) \<and>
         (\<forall>fs. fst (load_feeds w) = Inr fs \<longrightarrow> (\<exists>s'. fst (check_feeds l cfg w) = Inr s'))"
proof (intro conjI allI impI)
  fix s' w' u h
  assume c: "check_feeds l cfg w = (Inr s', w')" and h: "s0 u = Some h"
  from check_feeds_post [OF c] assms obtain js where post: "cycle_post s0 w s' w' js" by auto
  then have e: "hist_of s' u = hist_of s0 u @ delivered_ids u js" and d: "dom s0 \<subseteq> dom s'"
    by (simp_all add: cycle_post_def)
  from h d obtain h' where h': "s' u = Some h'" by blast
  with e h have "h' = h @ delivered_ids u js" by (simp add: hist_of_def)
  with h' show "\<exists>sfx. s' u = Some (h @ sfx)" by blast
next
  fix fs assume "fst (load_feeds w) = Inr fs"
  then show "\<exists>s'. fst (check_feeds l cfg w) = Inr s'"
    using assms by (auto simp: check_feeds_def split: prod.splits)
qed

theorem history_monotone_witness:
  "load_sent_items seen_world = Inr seen_store \<and>
   seen_store example_url = Some [[2]] \<and>
   fst (load_feeds seen_world) = Inr [example_url] \<and>
   take 1 (returned_history (fst (check_feeds plain_lib plain_config seen_world)) example_url) =
     [[2]]"
proof -
  let ?c = "check_feeds plain_lib plain_config seen_world"
  from history_monotone [OF load_seen_world, of plain_lib plain_config] load_feeds_seen_world
  obtain s' where s': "fst ?c = Inr s'" by blast
  then have "?c = (Inr s', snd ?c)" by (metis prod.collapse)
  with history_monotone [OF load_seen_world, of plain_lib plain_config] seen_store_at
  obtain sfx where "s' example_url = Some ([[2]] @ sfx)" by blast
  with s' have "returned_history (fst ?c) example_url = [[2]] @ sfx"
    by (simp add: returned_history_def hist_of_def)
  then show ?thesis using load_seen_world seen_store_at load_feeds_seen_world by simp
qed

text \<open>
  C1. A feed with 201 new entries, all sent with success, leaves a history of 201
  identifiers, above \<open>MAX_HISTORY_ITEMS\<close>: nothing is evicted.
\<close>

theorem history_exceeds_cap:
  "length (returned_history (fst (check_feeds plain_lib plain_config (feed_world [0..<201])))
             example_url) = 201 \<and>
   MAX_HISTORY_ITEMS plain_config = 200"
proof -
  have "[0..<201] \<noteq> []" by simp
  from feed_world_history [OF this] show ?thesis
    by (simp add: plain_config_def default_config_def)
qed

end
